theory Spec2Isabelle
  imports Complex_Main "HOL-Library.AList"
begin

section \<open>Guardian file integrity monitor: data model\<close>

text \<open>
  The development follows \<^verbatim>\<open>guardian.py\<close>. Python strings are modelled as
  \<^typ>\<open>string\<close> (ASCII), Python integers as \<^typ>\<open>int\<close>, a float that is only
  carried around (the modification time) as \<^typ>\<open>rat\<close>, and \<^verbatim>\<open>Optional\<close> as
  \<^typ>\<open>'a option\<close>. Fields filled from the wall clock and never read back
  (\<^verbatim>\<open>ChangeReport.timestamp\<close>, \<^verbatim>\<open>files.created_at\<close>,
  \<^verbatim>\<open>change_history.detected_at\<close>) are left out; \<^verbatim>\<open>baselines.created_at\<close>,
  which a query orders by, is kept.
\<close>

datatype ChangeType = ADDED | MODIFIED | REMOVED | UNCHANGED

record FileInfo =
  path :: string
  size_bytes :: int
  modified_time :: rat
  hash_sha256 :: string
  hash_sha1 :: string
  hash_md5 :: string
  permissions :: string
  inode :: "int option"

record ChangeReport =
  change_type :: ChangeType
  file_path :: string
  old_hash :: "string option"
  new_hash :: "string option"
  old_size :: "int option"
  new_size :: "int option"

subsection \<open>Python dictionaries\<close>

text \<open>
  A \<^verbatim>\<open>dict\<close> keeps its keys in insertion order; assigning to a key that is
  present replaces the value in place. That is \<^const>\<open>AList.update\<close> on an association
  list. \<^verbatim>\<open>{f.path: f for f in files}\<close> inserts the files from left to right.
\<close>

type_synonym ('k, 'v) dict = "('k \<times> 'v) list"

definition dict_keys :: "('k, 'v) dict \<Rightarrow> 'k set" where
  "dict_keys d = fst ` set d"

definition dict_by_path :: "FileInfo list \<Rightarrow> (string, FileInfo) dict" where
  "dict_by_path fs = foldl (\<lambda>d f. AList.update (path f) f d) [] fs"

section \<open>The diff of \<^verbatim>\<open>Guardian.check_integrity\<close>\<close>

text \<open>
  The body of the first loop (lines 568--587): one baseline entry against the dictionary of
  the current scan.
\<close>

definition check_baseline_entry ::
  "(string, FileInfo) dict \<Rightarrow> string \<times> FileInfo \<Rightarrow> ChangeReport list" where
  "check_baseline_entry current_file_dict e =
     (case e of (fpath, baseline_file) \<Rightarrow>
        (case map_of current_file_dict fpath of
           Some current_file \<Rightarrow>
             if hash_sha256 baseline_file \<noteq> hash_sha256 current_file
             then [\<lparr>change_type = MODIFIED, file_path = fpath,
                    old_hash = Some (hash_sha256 baseline_file),
                    new_hash = Some (hash_sha256 current_file),
                    old_size = Some (size_bytes baseline_file),
                    new_size = Some (size_bytes current_file)\<rparr>]
             else []
         | None \<Rightarrow>
             [\<lparr>change_type = REMOVED, file_path = fpath,
               old_hash = Some (hash_sha256 baseline_file),
               new_hash = None, old_size = None, new_size = None\<rparr>]))"

text \<open>The body of the second loop (lines 590--598).\<close>

definition check_current_entry ::
  "(string, FileInfo) dict \<Rightarrow> string \<times> FileInfo \<Rightarrow> ChangeReport list" where
  "check_current_entry baseline_files e =
     (case e of (fpath, current_file) \<Rightarrow>
        (case map_of baseline_files fpath of
           None \<Rightarrow>
             [\<lparr>change_type = ADDED, file_path = fpath,
               old_hash = None,
               new_hash = Some (hash_sha256 current_file),
               old_size = None,
               new_size = Some (size_bytes current_file)\<rparr>]
         | Some _ \<Rightarrow> []))"

text \<open>Lines 565--598: the list \<^verbatim>\<open>changes\<close> after both loops.\<close>

definition detect_changes ::
  "(string, FileInfo) dict \<Rightarrow> (string, FileInfo) dict \<Rightarrow> ChangeReport list" where
  "detect_changes baseline_files current_file_dict =
     concat (map (check_baseline_entry current_file_dict) baseline_files) @
     concat (map (check_current_entry baseline_files) current_file_dict)"

text \<open>
  The number of baseline entries whose path is also in the current dictionary with the same
  SHA-256 digest: the paths the diff leaves unchanged.
\<close>

definition unchanged_count ::
  "(string, FileInfo) dict \<Rightarrow> (string, FileInfo) dict \<Rightarrow> nat" where
  "unchanged_count b c =
     length (filter (\<lambda>e. case map_of c (fst e) of
                           Some cf \<Rightarrow> hash_sha256 (snd e) = hash_sha256 cf
                         | None \<Rightarrow> False) b)"

text \<open>
  The same dictionary with other SHA-1 and MD5 digests: \<open>g\<close> gives, for each path, the
  two digests to store instead.
\<close>

definition with_digests ::
  "(string \<Rightarrow> string \<times> string) \<Rightarrow> (string, FileInfo) dict \<Rightarrow> (string, FileInfo) dict" where
  "with_digests g d =
     map (\<lambda>e. (fst e, (snd e)\<lparr>hash_sha1 := fst (g (fst e)), hash_md5 := snd (g (fst e))\<rparr>)) d"

definition count_type :: "ChangeType \<Rightarrow> ChangeReport list \<Rightarrow> nat" where
  "count_type t rs = length (filter (\<lambda>r. change_type r = t) rs)"

definition records_for :: "string \<Rightarrow> ChangeReport list \<Rightarrow> ChangeReport list" where
  "records_for p rs = filter (\<lambda>r. file_path r = p) rs"

section \<open>Python library functions used by the scanner\<close>

subsection \<open>Strings\<close>

definition startswith :: "string \<Rightarrow> string \<Rightarrow> bool" where
  "startswith s pre = (take (length pre) s = pre)"

definition endswith :: "string \<Rightarrow> string \<Rightarrow> bool" where
  "endswith s suf = (length suf \<le> length s \<and> drop (length s - length suf) s = suf)"

definition upper_char :: "char \<Rightarrow> char" where
  "upper_char c =
     (let n = (of_char c :: nat) in if 97 \<le> n \<and> n \<le> 122 then char_of (n - 32) else c)"

definition upper :: "string \<Rightarrow> string" where
  "upper s = map upper_char s"

text \<open>
  \<^verbatim>\<open>str.strip()\<close> removes the characters for which \<^verbatim>\<open>str.isspace\<close> holds; among
  ASCII these are the codes 9--13, 28--31 and 32. \<^verbatim>\<open>float()\<close> and \<^verbatim>\<open>int()\<close> skip
  only 9--13 and 32 around a literal.
\<close>

definition is_strip_space :: "char \<Rightarrow> bool" where
  "is_strip_space c = (let n = (of_char c :: nat) in (9 \<le> n \<and> n \<le> 13) \<or> (28 \<le> n \<and> n \<le> 32))"

definition is_literal_space :: "char \<Rightarrow> bool" where
  "is_literal_space c = (let n = (of_char c :: nat) in (9 \<le> n \<and> n \<le> 13) \<or> n = 32)"

definition strip_by :: "(char \<Rightarrow> bool) \<Rightarrow> string \<Rightarrow> string" where
  "strip_by sp s = rev (dropWhile sp (rev (dropWhile sp s)))"

definition strip :: "string \<Rightarrow> string" where
  "strip s = strip_by is_strip_space s"

subsection \<open>Numeric literals: \<^verbatim>\<open>int(str)\<close> and \<^verbatim>\<open>float(str)\<close>\<close>

datatype py_exception = ValueError | OverflowError

text \<open>
  A Python float is a finite binary64 value (a rational), an infinity (\<open>True\<close> for the
  negative one) or a NaN. Rounding a rational to the nearest binary64 value is the one
  step that is not modelled: it is the parameter \<open>rnd\<close> of the functions below.
\<close>

datatype pyfloat = Finite rat | Infinity bool | NaN

definition is_digit :: "char \<Rightarrow> bool" where
  "is_digit c = (let n = (of_char c :: nat) in 48 \<le> n \<and> n \<le> 57)"

definition digit_val :: "char \<Rightarrow> nat" where
  "digit_val c = (of_char c :: nat) - 48"

definition digits_val :: "string \<Rightarrow> nat" where
  "digits_val ds = foldl (\<lambda>n c. 10 * n + digit_val c) 0 ds"

text \<open>
  \<open>digitpart ::= digit (["_"] digit)*\<close>. After the first digit, \<open>digit_tail\<close> reads the
  longest continuation and returns its digits and the unread rest.
\<close>

fun digit_tail :: "string \<Rightarrow> string \<times> string" where
  "digit_tail [] = ([], [])"
| "digit_tail [c] = (if is_digit c then ([c], []) else ([], [c]))"
| "digit_tail (c # d # cs) =
     (if is_digit c then (case digit_tail (d # cs) of (ds, r) \<Rightarrow> (c # ds, r))
      else if c = CHR ''_'' \<and> is_digit d then (case digit_tail cs of (ds, r) \<Rightarrow> (d # ds, r))
      else ([], c # d # cs))"

definition digitpart :: "string \<Rightarrow> (string \<times> string) option" where
  "digitpart s =
     (case s of [] \<Rightarrow> None
      | c # cs \<Rightarrow> if is_digit c then (case digit_tail cs of (ds, r) \<Rightarrow> Some (c # ds, r))
                  else None)"

text \<open>An optional sign: \<open>True\<close> for a minus.\<close>

definition opt_sign :: "string \<Rightarrow> bool \<times> string" where
  "opt_sign s =
     (case s of [] \<Rightarrow> (False, [])
      | c # cs \<Rightarrow> if c = CHR ''-'' then (True, cs)
                  else if c = CHR ''+'' then (False, cs) else (False, c # cs))"

text \<open>
  \<^verbatim>\<open>int(s)\<close> in base 10: \<open>[sign] digitpart\<close> between optional white space. The
  limit that recent interpreters put on the number of digits is not modelled.
\<close>

definition py_int :: "string \<Rightarrow> py_exception + int" where
  "py_int s =
     (case opt_sign (strip_by is_literal_space s) of (neg, t) \<Rightarrow>
        (case digitpart t of
           Some (ds, []) \<Rightarrow> Inr (if neg then - int (digits_val ds) else int (digits_val ds))
         | _ \<Rightarrow> Inl ValueError))"

text \<open>
  \<open>floatnumber ::= ([digitpart] "." digitpart | digitpart ["."]) [("e" | "E") [sign] digitpart]\<close>.
  \<open>float_mantissa\<close> returns the digits before the point, those after it, and the rest.
\<close>

definition float_mantissa :: "string \<Rightarrow> (string \<times> string \<times> string) option" where
  "float_mantissa s =
     (case digitpart s of
        Some (ip, r) \<Rightarrow>
          (case r of
             c # r' \<Rightarrow>
               if c = CHR ''.''
               then (case digitpart r' of Some (fp, r'') \<Rightarrow> Some (ip, fp, r'')
                                        | None \<Rightarrow> Some (ip, [], r'))
               else Some (ip, [], r)
           | [] \<Rightarrow> Some (ip, [], []))
      | None \<Rightarrow>
          (case s of
             c # r' \<Rightarrow>
               if c = CHR ''.''
               then (case digitpart r' of Some (fp, r'') \<Rightarrow> Some ([], fp, r'') | None \<Rightarrow> None)
               else None
           | [] \<Rightarrow> None))"

definition float_exponent :: "string \<Rightarrow> int option" where
  "float_exponent r =
     (case r of
        [] \<Rightarrow> Some 0
      | c # r' \<Rightarrow>
          if c = CHR ''e'' \<or> c = CHR ''E''
          then (case opt_sign r' of (neg, t) \<Rightarrow>
                  (case digitpart t of
                     Some (ds, []) \<Rightarrow> Some (if neg then - int (digits_val ds) else int (digits_val ds))
                   | _ \<Rightarrow> None))
          else None)"

definition pow10 :: "int \<Rightarrow> rat" where
  "pow10 e = (if 0 \<le> e then 10 ^ nat e else 1 / 10 ^ nat (- e))"

definition float_negate :: "pyfloat \<Rightarrow> pyfloat" where
  "float_negate x = (case x of Finite r \<Rightarrow> Finite (- r) | Infinity b \<Rightarrow> Infinity (\<not> b) | NaN \<Rightarrow> NaN)"

text \<open>
  \<^verbatim>\<open>float(s)\<close>: white space is skipped, then an optional sign, then \<^verbatim>\<open>inf\<close>,
  \<^verbatim>\<open>infinity\<close> or \<^verbatim>\<open>nan\<close> in any letter case, or a decimal literal whose exact
  value is rounded by \<open>rnd\<close>.
\<close>

definition py_float :: "(rat \<Rightarrow> pyfloat) \<Rightarrow> string \<Rightarrow> py_exception + pyfloat" where
  "py_float rnd s =
     (case opt_sign (strip_by is_literal_space s) of (neg, t) \<Rightarrow>
        (let sgn = (\<lambda>x. if neg then float_negate x else x) in
         if upper t = ''INF'' \<or> upper t = ''INFINITY'' then Inr (sgn (Infinity False))
         else if upper t = ''NAN'' then Inr NaN
         else (case float_mantissa t of
                 None \<Rightarrow> Inl ValueError
               | Some (ip, fp, r) \<Rightarrow>
                   (case float_exponent r of
                      None \<Rightarrow> Inl ValueError
                    | Some e \<Rightarrow>
                        Inr (sgn (rnd (of_nat (digits_val (ip @ fp)) * pow10 (e - int (length fp)))))))))"

text \<open>\<^verbatim>\<open>x * m\<close> for a float and an integer: the exact product, rounded.\<close>

definition float_mul :: "(rat \<Rightarrow> pyfloat) \<Rightarrow> pyfloat \<Rightarrow> int \<Rightarrow> pyfloat" where
  "float_mul rnd x m =
     (case x of
        Finite r \<Rightarrow> rnd (r * of_int m)
      | Infinity b \<Rightarrow> if m = 0 then NaN else Infinity (if m < 0 then \<not> b else b)
      | NaN \<Rightarrow> NaN)"

text \<open>
  \<^verbatim>\<open>int(x)\<close> for a float truncates towards zero; it raises \<^verbatim>\<open>OverflowError\<close> for an
  infinity and \<^verbatim>\<open>ValueError\<close> for a NaN.
\<close>

definition int_of_float :: "pyfloat \<Rightarrow> py_exception + int" where
  "int_of_float x =
     (case x of
        Finite r \<Rightarrow> Inr (if 0 \<le> r then \<lfloor>r\<rfloor> else \<lceil>r\<rceil>)
      | Infinity _ \<Rightarrow> Inl OverflowError
      | NaN \<Rightarrow> Inl ValueError)"

section \<open>\<^verbatim>\<open>GuardianScanner._parse_size\<close>\<close>

definition default_size :: int where
  "default_size = 100 * 1024 * 1024"

definition multipliers :: "(string \<times> int) list" where
  "multipliers = [(''GB'', 1024 ^ 3), (''MB'', 1024 ^ 2), (''KB'', 1024), (''B'', 1)]"

text \<open>
  \<^verbatim>\<open>try: return ... except ValueError: return default\<close>: a \<^verbatim>\<open>ValueError\<close> of the
  body becomes the default, any other exception leaves the function.
\<close>

definition except_ValueError :: "py_exception + int \<Rightarrow> int \<Rightarrow> py_exception + int" where
  "except_ValueError body dflt =
     (case body of Inl ValueError \<Rightarrow> Inr dflt | Inl e \<Rightarrow> Inl e | Inr v \<Rightarrow> Inr v)"

text \<open>The body of the \<^verbatim>\<open>try\<close> at line 281: \<^verbatim>\<open>int(float(number) * multiplier)\<close>.\<close>

definition scaled_size :: "(rat \<Rightarrow> pyfloat) \<Rightarrow> string \<Rightarrow> int \<Rightarrow> py_exception + int" where
  "scaled_size rnd number multiplier =
     (case py_float rnd number of
        Inl e \<Rightarrow> Inl e
      | Inr x \<Rightarrow> int_of_float (float_mul rnd x multiplier))"

text \<open>
  The loop over the suffixes (lines 277--284); \<open>None\<close> when no suffix matched and the loop
  ended without returning.
\<close>

fun suffix_loop ::
  "(rat \<Rightarrow> pyfloat) \<Rightarrow> string \<Rightarrow> (string \<times> int) list \<Rightarrow> (py_exception + int) option" where
  "suffix_loop rnd size_str [] = None"
| "suffix_loop rnd size_str ((suffix, multiplier) # ms) =
     (if endswith size_str suffix
      then Some (except_ValueError
                   (scaled_size rnd (take (length size_str - length suffix) size_str) multiplier)
                   default_size)
      else suffix_loop rnd size_str ms)"

definition parse_size :: "(rat \<Rightarrow> pyfloat) \<Rightarrow> string \<Rightarrow> py_exception + int" where
  "parse_size rnd size_str0 =
     (let size_str = strip (upper size_str0) in
      case suffix_loop rnd size_str multipliers of
        Some r \<Rightarrow> r
      | None \<Rightarrow> except_ValueError (py_int size_str) default_size)"

section \<open>The file system and the library around the scanner\<close>

type_synonym bytes = "char list"

text \<open>
  Library functions whose results the scanner only passes on: \<^verbatim>\<open>PurePath.match\<close>
  (path, then pattern), \<^verbatim>\<open>os.path.abspath\<close> and the three hex digests of
  \<^verbatim>\<open>hashlib\<close>. Every theorem below holds for any choice of them.
\<close>

record pylib =
  path_match :: "string \<Rightarrow> string \<Rightarrow> bool"
  abspath :: "string \<Rightarrow> string"
  sha256_hex :: "bytes \<Rightarrow> string"
  sha1_hex :: "bytes \<Rightarrow> string"
  md5_hex :: "bytes \<Rightarrow> string"

text \<open>
  \<^verbatim>\<open>Path(p).name\<close> on POSIX: the last component that is neither empty nor
  \<^verbatim>\<open>.\<close>, or the empty string when there is none.
\<close>

fun split_slash :: "string \<Rightarrow> string \<Rightarrow> string list" where
  "split_slash acc [] = [rev acc]"
| "split_slash acc (c # cs) =
     (if c = CHR ''/'' then rev acc # split_slash [] cs else split_slash (c # acc) cs)"

definition path_name :: "string \<Rightarrow> string" where
  "path_name p =
     (case rev (filter (\<lambda>part. part \<noteq> [] \<and> part \<noteq> ''.'') (split_slash [] p)) of
        [] \<Rightarrow> []
      | part # _ \<Rightarrow> part)"

text \<open>\<^verbatim>\<open>os.path.join(a, b)\<close> on POSIX.\<close>

definition path_join :: "string \<Rightarrow> string \<Rightarrow> string" where
  "path_join a b =
     (if startswith b ''/'' then b
      else if a = [] \<or> endswith a ''/'' then a @ b
      else a @ ''/'' @ b)"

text \<open>\<^verbatim>\<open>oct(n)\<close> and the slice \<^verbatim>\<open>[-3:]\<close>.\<close>

function oct_digits :: "nat \<Rightarrow> string" where
  "oct_digits n =
     (if n < 8 then [''01234567'' ! n] else oct_digits (n div 8) @ [''01234567'' ! (n mod 8)])"
  by pat_completeness auto
termination
  by (relation "measure id") auto

declare oct_digits.simps [simp del]

definition oct :: "nat \<Rightarrow> string" where
  "oct n = ''0o'' @ oct_digits n"

definition last3 :: "string \<Rightarrow> string" where
  "last3 s = drop (length s - 3) s"

text \<open>
  What \<^verbatim>\<open>os.stat\<close> returns, and what opening and reading a file does: each
  \<^verbatim>\<open>f.read(8192)\<close> returns the next element of \<open>reads\<close>, a chunk of bytes or an
  \<^verbatim>\<open>OSError\<close>; after the last element every read returns \<^verbatim>\<open>b""\<close>.
\<close>

record stat_result =
  st_size :: int
  st_mtime :: rat
  st_mode :: nat
  st_ino :: int

datatype read_result = Chunk bytes | ReadError

record fs_file =
  stat :: "stat_result option"
  opens :: bool
  reads :: "read_result list"

text \<open>
  A directory entry is a file (anything for which \<^verbatim>\<open>is_dir()\<close> is false), a directory
  with its entries, a directory that cannot be listed, or a symbolic link to a directory.
\<close>

datatype fs_node =
    File fs_file
  | Directory "(string \<times> fs_node) list"
  | UnlistableDirectory
  | DirectoryLink

fun is_dir :: "fs_node \<Rightarrow> bool" where
  "is_dir (File _) = False"
| "is_dir _ = True"

fun the_file :: "fs_node \<Rightarrow> fs_file option" where
  "the_file (File f) = Some f"
| "the_file _ = None"

text \<open>A file system gives the node found at an absolute path, if any.\<close>

type_synonym filesystem = "string \<Rightarrow> fs_node option"

text \<open>
  \<^verbatim>\<open>os.walk(dirpath)\<close>, top-down, with the caller's in-place filter of \<^verbatim>\<open>dirs\<close>
  given as \<open>keep\<close> on the joined path: each listed directory yields its path, the names of
  its subdirectories as listed, and its other entries; then the kept subdirectories are
  walked in order. Listing errors are swallowed (\<^verbatim>\<open>onerror=None\<close>) and links to
  directories are not followed, so these yield nothing.
\<close>

fun os_walk ::
  "(string \<Rightarrow> bool) \<Rightarrow> string \<Rightarrow> fs_node \<Rightarrow>
     (string \<times> string list \<times> (string \<times> fs_file) list) list" where
  "os_walk keep dirpath (Directory es) =
     (dirpath,
      map fst (filter (\<lambda>e. is_dir (snd e)) es),
      List.map_filter (\<lambda>e. map_option (Pair (fst e)) (the_file (snd e))) es)
     # concat (map (\<lambda>e. if is_dir (snd e) \<and> keep (path_join dirpath (fst e))
                          then os_walk keep (path_join dirpath (fst e)) (snd e) else []) es)"
| "os_walk keep dirpath (File f) = []"
| "os_walk keep dirpath UnlistableDirectory = []"
| "os_walk keep dirpath DirectoryLink = []"

text \<open>
  A healthy file with content \<open>c\<close> hands \<open>c\<close> out in chunks of 8192 bytes.
\<close>

function chunks :: "nat \<Rightarrow> bytes \<Rightarrow> bytes list" where
  "chunks n xs = (if n = 0 \<or> xs = [] then [] else take n xs # chunks n (drop n xs))"
  by pat_completeness auto
termination
  by (relation "measure (\<lambda>(n, xs). length xs)") auto

declare chunks.simps [simp del]

definition regular_file :: "stat_result \<Rightarrow> bytes \<Rightarrow> fs_file" where
  "regular_file s c = \<lparr>stat = Some s, opens = True, reads = map Chunk (chunks 8192 c)\<rparr>"

section \<open>Logging\<close>

datatype log_level = INFO | WARNING | ERROR

datatype log_message =
    DirectoryDoesNotExist string
  | ScanningDirectory string
  | SkippingLargeFile string int
  | CouldNotHashFile string
  | CouldNotProcessFile string
  | ScannedFiles nat
  | CreatingBaseline string string
  | NoFilesFound string
  | BaselineCreated int nat
  | NoBaselineFound string
  | CheckingIntegrity string
  | IntegrityCheckCompleted nat

type_synonym log_record = "log_level \<times> log_message"

section \<open>\<^verbatim>\<open>GuardianScanner\<close>\<close>

text \<open>
  The scanner's state: the patterns read once by \<^verbatim>\<open>_compile_exclude_patterns\<close>, the
  excluded path prefixes that \<^verbatim>\<open>_should_exclude\<close> reads from the configuration, and
  the parsed \<^verbatim>\<open>max_file_size\<close>.
\<close>

record scanner =
  exclude_patterns :: "string list"
  exclude_paths :: "string list"
  max_file_size :: int

definition should_exclude :: "pylib \<Rightarrow> scanner \<Rightarrow> string \<Rightarrow> bool" where
  "should_exclude L sc fpath =
     (list_ex (\<lambda>pattern. path_match L fpath pattern \<or> path_name fpath = pattern)
        (exclude_patterns sc)
      \<or> list_ex (\<lambda>exclude_path. startswith fpath exclude_path) (exclude_paths sc))"

text \<open>
  The three \<^verbatim>\<open>hashlib\<close> objects are modelled by the bytes each has been fed so far;
  \<^verbatim>\<open>hexdigest\<close> applies the digest function to them. \<open>read_loop\<close> is the
  \<^verbatim>\<open>for chunk in iter(lambda: f.read(8192), b"")\<close> loop: it ends at the first empty
  chunk, and \<open>None\<close> stands for the \<^verbatim>\<open>OSError\<close> of a failed read.
\<close>

fun read_loop :: "read_result list \<Rightarrow> bytes \<times> bytes \<times> bytes \<Rightarrow> (bytes \<times> bytes \<times> bytes) option" where
  "read_loop [] h = Some h"
| "read_loop (ReadError # rs) h = None"
| "read_loop (Chunk c # rs) (h256, h1, h5) =
     (if c = [] then Some (h256, h1, h5) else read_loop rs (h256 @ c, h1 @ c, h5 @ c))"

definition hash_body :: "fs_file \<Rightarrow> (bytes \<times> bytes \<times> bytes) option" where
  "hash_body f = (if opens f then read_loop (reads f) ([], [], []) else None)"

definition calculate_hashes ::
  "pylib \<Rightarrow> string \<Rightarrow> fs_file \<Rightarrow> (string \<times> string \<times> string) \<times> log_record list" where
  "calculate_hashes L fpath f =
     (case hash_body f of
        Some (h256, h1, h5) \<Rightarrow> ((sha256_hex L h256, sha1_hex L h1, md5_hex L h5), [])
      | None \<Rightarrow> (([], [], []), [(WARNING, CouldNotHashFile fpath)]))"

text \<open>
  The bytes a complete read of the file returns, or \<open>None\<close> when opening or a read fails
  before the end: what the digests are meant to be digests of.
\<close>

fun read_all :: "read_result list \<Rightarrow> bytes option" where
  "read_all [] = Some []"
| "read_all (ReadError # rs) = None"
| "read_all (Chunk c # rs) = (if c = [] then Some [] else map_option ((@) c) (read_all rs))"

definition file_content :: "fs_file \<Rightarrow> bytes option" where
  "file_content f = (if opens f then read_all (reads f) else None)"

text \<open>
  The body of the loop over \<^verbatim>\<open>filenames\<close> (lines 344--375): the record appended to
  \<^verbatim>\<open>files\<close>, if any, and what is logged.
\<close>

definition process_file ::
  "pylib \<Rightarrow> scanner \<Rightarrow> string \<Rightarrow> fs_file \<Rightarrow> FileInfo option \<times> log_record list" where
  "process_file L sc fpath f =
     (if should_exclude L sc fpath then (None, [])
      else case stat f of
        None \<Rightarrow> (None, [(WARNING, CouldNotProcessFile fpath)])
      | Some stat_info \<Rightarrow>
          if st_size stat_info > max_file_size sc
          then (None, [(WARNING, SkippingLargeFile fpath (st_size stat_info))])
          else (case calculate_hashes L fpath f of
                  ((sha256, sha1, md5), lg) \<Rightarrow>
                    (Some \<lparr>path = fpath, size_bytes = st_size stat_info,
                           modified_time = st_mtime stat_info,
                           hash_sha256 = sha256, hash_sha1 = sha1, hash_md5 = md5,
                           permissions = last3 (oct (st_mode stat_info)),
                           inode = Some (st_ino stat_info)\<rparr>, lg)))"

text \<open>The directories the scan lists, with the filter of line 341 applied before descent.\<close>

definition scan_walk ::
  "pylib \<Rightarrow> scanner \<Rightarrow> string \<Rightarrow> fs_node \<Rightarrow>
     (string \<times> string list \<times> (string \<times> fs_file) list) list" where
  "scan_walk L sc directory node = os_walk (\<lambda>d. \<not> should_exclude L sc d) directory node"

text \<open>Every file the loops of lines 339--375 reach: its joined path and the file.\<close>

definition walked_files ::
  "pylib \<Rightarrow> scanner \<Rightarrow> string \<Rightarrow> fs_node \<Rightarrow> (string \<times> fs_file) list" where
  "walked_files L sc directory node =
     concat (map (\<lambda>(dirpath, dirs, filenames).
                    map (\<lambda>(filename, f). (path_join dirpath filename, f)) filenames)
                 (scan_walk L sc directory node))"

text \<open>
  \<^verbatim>\<open>scan_directory\<close>. No \<^verbatim>\<open>OSError\<close> reaches the outer handler of line 377 in
  this model: the walk swallows its own, and \<^verbatim>\<open>os.stat\<close> and the hashing are
  guarded inside the loop.
\<close>

definition scan_directory ::
  "pylib \<Rightarrow> scanner \<Rightarrow> filesystem \<Rightarrow> string \<Rightarrow> FileInfo list \<times> log_record list" where
  "scan_directory L sc fs directory0 =
     (let directory = abspath L directory0 in
      case fs directory of
        None \<Rightarrow> ([], [(ERROR, DirectoryDoesNotExist directory)])
      | Some node \<Rightarrow>
          (let results = map (\<lambda>(fpath, f). process_file L sc fpath f)
                             (walked_files L sc directory node);
               files = List.map_filter fst results
           in (files,
               [(INFO, ScanningDirectory directory)] @ concat (map snd results) @
               [(INFO, ScannedFiles (length files))])))"

section \<open>\<^verbatim>\<open>GuardianDatabase\<close>\<close>

text \<open>
  The three tables, each a list of rows in order of insertion. \<open>b_created_at\<close> is the
  \<^verbatim>\<open>CURRENT_TIMESTAMP\<close> of the insertion, a text \<^verbatim>\<open>YYYY-MM-DD HH:MM:SS\<close> with a
  resolution of one second; it is modelled by the number of seconds it denotes, which
  orders the same way.
\<close>

record baseline_row =
  b_id :: int
  b_name :: string
  b_created_at :: nat
  b_path :: string
  b_file_count :: nat
  b_total_size :: int

record file_row =
  f_baseline_id :: int
  f_info :: FileInfo

record change_row =
  c_baseline_id :: int
  c_change_type :: string
  c_file_path :: string
  c_old_hash :: "string option"
  c_new_hash :: "string option"
  c_old_size :: "int option"
  c_new_size :: "int option"

record database =
  baselines :: "baseline_row list"
  files :: "file_row list"
  change_history :: "change_row list"

definition empty_database :: database where
  "empty_database = \<lparr>baselines = [], files = [], change_history = []\<rparr>"

text \<open>
  \<^verbatim>\<open>AUTOINCREMENT\<close>: one more than the largest id used so far. No row is ever
  deleted, so that is the largest id in the table.
\<close>

definition next_baseline_id :: "database \<Rightarrow> int" where
  "next_baseline_id db = foldr max (map b_id (baselines db)) 0 + 1"

definition db_create_baseline ::
  "database \<Rightarrow> nat \<Rightarrow> string \<Rightarrow> string \<Rightarrow> FileInfo list \<Rightarrow> int \<times> database" where
  "db_create_baseline db now name bpath fs =
     (let total_size = sum_list (map size_bytes fs);
          baseline_id = next_baseline_id db
      in (baseline_id,
          db\<lparr>baselines := baselines db @
                 [\<lparr>b_id = baseline_id, b_name = name, b_created_at = now, b_path = bpath,
                   b_file_count = length fs, b_total_size = total_size\<rparr>],
             files := files db @
                 map (\<lambda>file_info. \<lparr>f_baseline_id = baseline_id, f_info = file_info\<rparr>) fs\<rparr>))"

definition get_baseline_files :: "database \<Rightarrow> int \<Rightarrow> (string, FileInfo) dict" where
  "get_baseline_files db baseline_id =
     dict_by_path (map f_info (filter (\<lambda>r. f_baseline_id r = baseline_id) (files db)))"

text \<open>
  \<^verbatim>\<open>SELECT id FROM baselines WHERE path = ? ORDER BY created_at DESC LIMIT 1\<close>. SQL
  leaves the order of rows with equal \<^verbatim>\<open>created_at\<close> open; SQLite returns them in the
  order of the table scan, which is the order of insertion, so the sort is the stable one.
\<close>

definition order_by_created_at_desc :: "baseline_row list \<Rightarrow> baseline_row list" where
  "order_by_created_at_desc rows = sort_key (\<lambda>r. - int (b_created_at r)) rows"

definition get_latest_baseline :: "database \<Rightarrow> string \<Rightarrow> int option" where
  "get_latest_baseline db bpath =
     (case order_by_created_at_desc (filter (\<lambda>r. b_path r = bpath) (baselines db)) of
        [] \<Rightarrow> None
      | r # _ \<Rightarrow> Some (b_id r))"

fun change_type_value :: "ChangeType \<Rightarrow> string" where
  "change_type_value ADDED = ''ADDED''"
| "change_type_value MODIFIED = ''MODIFIED''"
| "change_type_value REMOVED = ''REMOVED''"
| "change_type_value UNCHANGED = ''UNCHANGED''"

definition record_changes :: "database \<Rightarrow> int \<Rightarrow> ChangeReport list \<Rightarrow> database" where
  "record_changes db baseline_id changes =
     db\<lparr>change_history := change_history db @
          map (\<lambda>change. \<lparr>c_baseline_id = baseline_id,
                          c_change_type = change_type_value (change_type change),
                          c_file_path = file_path change,
                          c_old_hash = old_hash change, c_new_hash = new_hash change,
                          c_old_size = old_size change, c_new_size = new_size change\<rparr>)
              changes\<rparr>"

section \<open>\<^verbatim>\<open>Guardian\<close>: the two entry points\<close>

text \<open>
  The clock readings an operation takes: the second \<^verbatim>\<open>CURRENT_TIMESTAMP\<close> gives and
  the \<^verbatim>\<open>strftime\<close> text used for a default baseline name.
\<close>

record clock =
  now_seconds :: nat
  now_stamp :: string

definition create_baseline ::
  "pylib \<Rightarrow> scanner \<Rightarrow> filesystem \<Rightarrow> clock \<Rightarrow> database \<Rightarrow> string \<Rightarrow> string option \<Rightarrow>
     int option \<times> database \<times> log_record list" where
  "create_baseline L sc fs clk db bpath name0 =
     (let name = (case name0 of None \<Rightarrow> ''baseline_'' @ now_stamp clk | Some n \<Rightarrow> n) in
      case scan_directory L sc fs bpath of
        (scanned, lg) \<Rightarrow>
          if scanned = []
          then (None, db, [(INFO, CreatingBaseline name bpath)] @ lg @ [(WARNING, NoFilesFound bpath)])
          else (case db_create_baseline db (now_seconds clk) name bpath scanned of
                  (baseline_id, db') \<Rightarrow>
                    (Some baseline_id, db',
                     [(INFO, CreatingBaseline name bpath)] @ lg @
                     [(INFO, BaselineCreated baseline_id (length scanned))])))"

definition check_integrity ::
  "pylib \<Rightarrow> scanner \<Rightarrow> filesystem \<Rightarrow> database \<Rightarrow> string \<Rightarrow>
     ChangeReport list \<times> database \<times> log_record list" where
  "check_integrity L sc fs db bpath =
     (case get_latest_baseline db bpath of
        None \<Rightarrow> ([], db, [(ERROR, NoBaselineFound bpath)])
      | Some baseline_id \<Rightarrow>
          (let baseline_files = get_baseline_files db baseline_id in
           case scan_directory L sc fs bpath of
             (current_files, lg) \<Rightarrow>
               (let current_file_dict = dict_by_path current_files;
                    changes = detect_changes baseline_files current_file_dict;
                    db' = (if changes \<noteq> [] then record_changes db baseline_id changes else db)
                in (changes, db',
                    [(INFO, CheckingIntegrity bpath)] @ lg @
                    [(INFO, IntegrityCheckCompleted (length changes))]))))"

section \<open>Example values\<close>

text \<open>A baseline and a current scan with one modified, one removed, one added and one
  unchanged path.\<close>

definition example_info :: "string \<Rightarrow> string \<Rightarrow> int \<Rightarrow> FileInfo" where
  "example_info p h n =
     \<lparr>path = p, size_bytes = n, modified_time = 0, hash_sha256 = h, hash_sha1 = ''s1'',
      hash_md5 = ''m5'', permissions = ''644'', inode = None\<rparr>"

definition example_baseline :: "(string, FileInfo) dict" where
  "example_baseline =
     [(''/d/a.txt'', example_info ''/d/a.txt'' ''h-hello'' 5),
      (''/d/b.txt'', example_info ''/d/b.txt'' ''h-world'' 5),
      (''/d/k.txt'', example_info ''/d/k.txt'' ''h-keep'' 4)]"

definition example_current :: "(string, FileInfo) dict" where
  "example_current =
     [(''/d/a.txt'', example_info ''/d/a.txt'' ''h-hello-there'' 11),
      (''/d/k.txt'', example_info ''/d/k.txt'' ''h-keep'' 4),
      (''/d/c.txt'', example_info ''/d/c.txt'' ''h-new'' 3)]"

text \<open>
  A library instance for the examples: \<open>example_match\<close> agrees with
  \<^verbatim>\<open>PurePath.match\<close> on one-component patterns that are literal text or a star followed
  by literal text; the digests are tagged copies of the input.
\<close>

definition example_match :: "string \<Rightarrow> string \<Rightarrow> bool" where
  "example_match p pattern =
     (case pattern of
        [] \<Rightarrow> False
      | c # suf \<Rightarrow> if c = CHR ''*'' then endswith (path_name p) suf else path_name p = pattern)"

definition example_lib :: pylib where
  "example_lib =
     \<lparr>path_match = example_match, abspath = (\<lambda>p. p),
      sha256_hex = (\<lambda>c. ''sha256:'' @ c), sha1_hex = (\<lambda>c. ''sha1:'' @ c),
      md5_hex = (\<lambda>c. ''md5:'' @ c)\<rparr>"

definition example_scanner :: scanner where
  "example_scanner =
     \<lparr>exclude_patterns = [''*.tmp'', ''cache''], exclude_paths = [''/proc''],
      max_file_size = 10\<rparr>"

definition example_stat :: "int \<Rightarrow> stat_result" where
  "example_stat n = \<lparr>st_size = n, st_mtime = 0, st_mode = 33188, st_ino = 7\<rparr>"

text \<open>
  A directory with a small file, a file of exactly the maximal size, one that is a byte
  larger, a file that cannot be opened, one whose second read fails, a file and a directory
  matching exclude patterns, and an ordinary subdirectory.
\<close>

definition example_tree :: fs_node where
  "example_tree =
     Directory
       [(''a.txt'', File (regular_file (example_stat 5) ''hello'')),
        (''edge.bin'', File (regular_file (example_stat 10) ''0123456789'')),
        (''big.bin'', File (regular_file (example_stat 11) ''0123456789A'')),
        (''locked'', File \<lparr>stat = Some (example_stat 3), opens = False, reads = []\<rparr>),
        (''torn'', File \<lparr>stat = Some (example_stat 4), opens = True,
                          reads = [Chunk ''ab'', ReadError]\<rparr>),
        (''x.tmp'', File (regular_file (example_stat 1) ''x'')),
        (''cache'', Directory [(''in.txt'', File (regular_file (example_stat 2) ''in''))]),
        (''sub'', Directory [(''c.txt'', File (regular_file (example_stat 3) ''new''))])]"

definition example_fs :: filesystem where
  "example_fs p = (if p = ''/d'' then Some example_tree else None)"


definition example_empty_fs :: filesystem where
  "example_empty_fs p = (if p = ''/d'' then Some (Directory []) else None)"

definition example_clock :: "nat \<Rightarrow> clock" where
  "example_clock t = \<lparr>now_seconds = t, now_stamp = ''20240101_000000''\<rparr>"

text \<open>Every row of \<^verbatim>\<open>files\<close> refers to a row of \<^verbatim>\<open>baselines\<close>.\<close>

definition db_consistent :: "database \<Rightarrow> bool" where
  "db_consistent db = list_all (\<lambda>r. f_baseline_id r \<in> set (map b_id (baselines db))) (files db)"

text \<open>A database with one baseline of \<^verbatim>\<open>/d\<close>, and one with two taken in the same second.\<close>

definition example_db_one :: database where
  "example_db_one =
     snd (db_create_baseline empty_database 100 ''first'' ''/d''
            [example_info ''/d/a.txt'' ''h-hello'' 5])"

definition example_db_two :: database where
  "example_db_two =
     snd (db_create_baseline example_db_one 100 ''second'' ''/d''
            [example_info ''/d/a.txt'' ''h-hello-there'' 11])"

text \<open>
  Two states of a directory with one file, before and after the file is rewritten, and the
  databases after a baseline of each state, both taken in second 100.
\<close>

definition example_fs_before :: filesystem where
  "example_fs_before p =
     (if p = ''/d''
      then Some (Directory [(''a.txt'', File (regular_file (example_stat 5) ''hello''))])
      else None)"

definition example_fs_after :: filesystem where
  "example_fs_after p =
     (if p = ''/d''
      then Some (Directory [(''a.txt'', File (regular_file (example_stat 6) ''hello!''))])
      else None)"

definition example_db_before :: database where
  "example_db_before =
     fst (snd (create_baseline example_lib example_scanner example_fs_before (example_clock 100)
                 empty_database ''/d'' None))"

definition example_db_after :: database where
  "example_db_after =
     fst (snd (create_baseline example_lib example_scanner example_fs_after (example_clock 100)
                 example_db_before ''/d'' None))"

text \<open>The database after a first baseline of the example directory.\<close>

definition example_db_scan :: database where
  "example_db_scan =
     fst (snd (create_baseline example_lib example_scanner example_fs (example_clock 200)
                 empty_database ''/d'' None))"

section \<open>Properties of the diff\<close>

lemma baseline_entry_path:
  "r \<in> set (check_baseline_entry c e) \<Longrightarrow> file_path r = fst e"
  by (auto simp: check_baseline_entry_def split: prod.splits option.splits if_splits)

lemma current_entry_path:
  "r \<in> set (check_current_entry b e) \<Longrightarrow> file_path r = fst e"
  by (auto simp: check_current_entry_def split: prod.splits option.splits if_splits)

lemma records_for_concat:
  assumes "distinct (map fst xs)"
    and "\<And>e r. e \<in> set xs \<Longrightarrow> r \<in> set (g e) \<Longrightarrow> file_path r = fst e"
  shows "records_for p (concat (map g xs)) =
           (case map_of xs p of None \<Rightarrow> [] | Some v \<Rightarrow> g (p, v))"
  using assms
proof (induction xs)
  case Nil
  then show ?case by (simp add: records_for_def)
next
  case (Cons e xs)
  obtain k v where e: "e = (k, v)" by (cases e)
  have here: "records_for p (g e) = (if k = p then g e else [])"
    using Cons.prems(2)[of e] e by (auto simp: records_for_def filter_empty_conv intro: filter_True)
  have rest: "records_for p (concat (map g xs)) =
           (case map_of xs p of None \<Rightarrow> [] | Some v \<Rightarrow> g (p, v))"
    using Cons by simp
  have none: "k = p \<Longrightarrow> map_of xs p = None"
    using Cons.prems(1) e by (auto simp: map_of_eq_None_iff)
  show ?case
    using here rest none e by (auto simp: records_for_def)
qed

lemma records_for_detect_changes:
  assumes "distinct (map fst b)" "distinct (map fst c)"
  shows "records_for p (detect_changes b c) =
           (case map_of b p of None \<Rightarrow> [] | Some v \<Rightarrow> check_baseline_entry c (p, v)) @
           (case map_of c p of None \<Rightarrow> [] | Some v \<Rightarrow> check_current_entry b (p, v))"
proof -
  have "records_for p (detect_changes b c) =
          records_for p (concat (map (check_baseline_entry c) b)) @
          records_for p (concat (map (check_current_entry b) c))"
    by (simp add: detect_changes_def records_for_def)
  then show ?thesis
    using records_for_concat[OF assms(1), of "check_baseline_entry c" p]
          records_for_concat[OF assms(2), of "check_current_entry b" p]
    by (simp add: baseline_entry_path current_entry_path)
qed

lemma map_of_None_keys: "map_of d p = None \<longleftrightarrow> p \<notin> dict_keys d"
  by (simp add: dict_keys_def map_of_eq_None_iff)

lemma in_dict_keys: "p \<in> dict_keys d \<longleftrightarrow> map_of d p \<noteq> None"
  by (simp add: map_of_None_keys)

lemma classify_path:
  assumes "distinct (map fst b)" "distinct (map fst c)"
  shows "map change_type (records_for p (detect_changes b c)) =
      (case (map_of b p, map_of c p) of
         (Some bf, Some cf) \<Rightarrow> if hash_sha256 bf \<noteq> hash_sha256 cf then [MODIFIED] else []
       | (Some bf, None) \<Rightarrow> [REMOVED]
       | (None, Some cf) \<Rightarrow> [ADDED]
       | (None, None) \<Rightarrow> [])"
  by (simp add: records_for_detect_changes[OF assms] check_baseline_entry_def check_current_entry_def
      split: option.splits)

lemma count_baseline_loop:
  "count_type REMOVED (concat (map (check_baseline_entry c) b)) +
   count_type MODIFIED (concat (map (check_baseline_entry c) b)) +
   unchanged_count b c = length b \<and>
   count_type ADDED (concat (map (check_baseline_entry c) b)) = 0"
  by (induction b)
     (auto simp: count_type_def unchanged_count_def check_baseline_entry_def split: option.splits)

lemma count_current_loop:
  "count_type ADDED (concat (map (check_current_entry b) c)) =
     length (filter (\<lambda>k. k \<notin> dict_keys b) (map fst c)) \<and>
   count_type MODIFIED (concat (map (check_current_entry b) c)) = 0 \<and>
   count_type REMOVED (concat (map (check_current_entry b) c)) = 0"
  by (induction c)
     (auto simp: count_type_def check_current_entry_def map_of_None_keys[symmetric]
           split: option.splits)

lemma count_type_append: "count_type t (xs @ ys) = count_type t xs + count_type t ys"
  by (simp add: count_type_def)

lemma counts_sum:
  assumes "distinct (map fst b)" "distinct (map fst c)"
  shows "count_type ADDED (detect_changes b c) + count_type MODIFIED (detect_changes b c) +
         count_type REMOVED (detect_changes b c) + unchanged_count b c =
         card (dict_keys b \<union> dict_keys c)"
proof -
  have lb: "length b = card (dict_keys b)"
    using assms(1) distinct_card[of "map fst b"] by (simp add: dict_keys_def)
  have "length (filter (\<lambda>k. k \<notin> dict_keys b) (map fst c)) =
        card {k \<in> set (map fst c). k \<notin> dict_keys b}"
    using assms(2) distinct_length_filter[of "map fst c" "\<lambda>k. k \<notin> dict_keys b"]
    by (simp add: Int_def conj_commute)
  also have "{k \<in> set (map fst c). k \<notin> dict_keys b} = dict_keys c - dict_keys b"
    by (auto simp: dict_keys_def)
  finally have lc: "length (filter (\<lambda>k. k \<notin> dict_keys b) (map fst c)) =
        card (dict_keys c - dict_keys b)" .
  have fin: "finite (dict_keys b)" "finite (dict_keys c)" by (simp_all add: dict_keys_def)
  have "card (dict_keys b \<union> dict_keys c) = card (dict_keys b) + card (dict_keys c - dict_keys b)"
    using fin card_Un_disjoint[of "dict_keys b" "dict_keys c - dict_keys b"] by (simp add: Un_Diff_cancel)
  then show ?thesis
    using count_baseline_loop[of c b] count_current_loop[of b c] lb lc
    by (simp add: detect_changes_def count_type_append)
qed

lemma baseline_loop_paths:
  "map file_path (concat (map (check_baseline_entry c) b)) =
     map fst (filter (\<lambda>e. check_baseline_entry c e \<noteq> []) b)"
  by (induction b) (auto simp: check_baseline_entry_def split: option.splits)

lemma current_loop_paths:
  "map file_path (concat (map (check_current_entry b) c)) =
     filter (\<lambda>k. k \<notin> dict_keys b) (map fst c)"
  by (induction c)
     (auto simp: check_current_entry_def map_of_None_keys[symmetric] split: option.splits)

lemma distinct_paths:
  assumes "distinct (map fst b)" "distinct (map fst c)"
  shows "distinct (map file_path (detect_changes b c))"
proof -
  have d1: "distinct (map file_path (concat (map (check_baseline_entry c) b)))"
    unfolding baseline_loop_paths using assms(1) by (rule distinct_map_filter)
  have d2: "distinct (map file_path (concat (map (check_current_entry b) c)))"
    unfolding current_loop_paths using assms(2) by (rule distinct_filter)
  have s1: "set (map file_path (concat (map (check_baseline_entry c) b))) \<subseteq> dict_keys b"
    unfolding baseline_loop_paths by (auto simp: dict_keys_def)
  have s2: "set (map file_path (concat (map (check_current_entry b) c))) \<inter> dict_keys b = {}"
    unfolding current_loop_paths by auto
  show ?thesis
    unfolding detect_changes_def map_append distinct_append
    using d1 d2 s1 s2 by blast
qed

lemma paths_in_union:
  "set (map file_path (detect_changes b c)) \<subseteq> dict_keys b \<union> dict_keys c"
  unfolding detect_changes_def map_append set_append baseline_loop_paths current_loop_paths
  by (auto simp: dict_keys_def)


lemma record_origin:
  assumes "distinct (map fst b)" "distinct (map fst c)" "r \<in> set (detect_changes b c)"
  shows "r \<in> set (case map_of b (file_path r) of None \<Rightarrow> []
                    | Some v \<Rightarrow> check_baseline_entry c (file_path r, v)) \<or>
         r \<in> set (case map_of c (file_path r) of None \<Rightarrow> []
                    | Some v \<Rightarrow> check_current_entry b (file_path r, v))"
proof -
  have "r \<in> set (records_for (file_path r) (detect_changes b c))"
    using assms(3) by (simp add: records_for_def)
  then show ?thesis
    unfolding records_for_detect_changes[OF assms(1,2)] by simp
qed

lemma baseline_entry_cases:
  assumes "r \<in> set (check_baseline_entry c (p, bf))"
  shows "(\<exists>cf. map_of c p = Some cf \<and> hash_sha256 bf \<noteq> hash_sha256 cf \<and>
            change_type r = MODIFIED \<and>
            old_hash r = Some (hash_sha256 bf) \<and> new_hash r = Some (hash_sha256 cf) \<and>
            old_size r = Some (size_bytes bf) \<and> new_size r = Some (size_bytes cf)) \<or>
         (map_of c p = None \<and> change_type r = REMOVED \<and>
            old_hash r = Some (hash_sha256 bf) \<and> new_hash r = None \<and>
            old_size r = None \<and> new_size r = None)"
  using assms
  by (cases "map_of c p") (auto simp: check_baseline_entry_def split: if_splits)

lemma current_entry_cases:
  assumes "r \<in> set (check_current_entry b (p, cf))"
  shows "map_of b p = None \<and> change_type r = ADDED \<and>
         old_hash r = None \<and> new_hash r = Some (hash_sha256 cf) \<and>
         old_size r = None \<and> new_size r = Some (size_bytes cf)"
  using assms
  by (cases "map_of b p") (auto simp: check_current_entry_def)

lemma record_cases:
  assumes "distinct (map fst b)" "distinct (map fst c)" "r \<in> set (detect_changes b c)"
  shows "(\<exists>bf cf. map_of b (file_path r) = Some bf \<and> map_of c (file_path r) = Some cf \<and>
            hash_sha256 bf \<noteq> hash_sha256 cf \<and> change_type r = MODIFIED \<and>
            old_hash r = Some (hash_sha256 bf) \<and> new_hash r = Some (hash_sha256 cf) \<and>
            old_size r = Some (size_bytes bf) \<and> new_size r = Some (size_bytes cf)) \<or>
         (\<exists>bf. map_of b (file_path r) = Some bf \<and> map_of c (file_path r) = None \<and>
            change_type r = REMOVED \<and>
            old_hash r = Some (hash_sha256 bf) \<and> new_hash r = None \<and>
            old_size r = None \<and> new_size r = None) \<or>
         (\<exists>cf. map_of b (file_path r) = None \<and> map_of c (file_path r) = Some cf \<and>
            change_type r = ADDED \<and>
            old_hash r = None \<and> new_hash r = Some (hash_sha256 cf) \<and>
            old_size r = None \<and> new_size r = Some (size_bytes cf))"
proof -
  define p where "p = file_path r"
  from record_origin[OF assms] have
    "r \<in> set (case map_of b p of None \<Rightarrow> [] | Some v \<Rightarrow> check_baseline_entry c (p, v)) \<or>
     r \<in> set (case map_of c p of None \<Rightarrow> [] | Some v \<Rightarrow> check_current_entry b (p, v))"
    by (simp add: p_def)
  then show ?thesis
  proof
    assume "r \<in> set (case map_of b p of None \<Rightarrow> [] | Some v \<Rightarrow> check_baseline_entry c (p, v))"
    then obtain bf where bf: "map_of b p = Some bf" "r \<in> set (check_baseline_entry c (p, bf))"
      by (cases "map_of b p") auto
    from baseline_entry_cases[OF bf(2)] bf(1) show ?thesis
      unfolding p_def[symmetric] by auto
  next
    assume "r \<in> set (case map_of c p of None \<Rightarrow> [] | Some v \<Rightarrow> check_current_entry b (p, v))"
    then obtain cf where cf: "map_of c p = Some cf" "r \<in> set (check_current_entry b (p, cf))"
      by (cases "map_of c p") auto
    from current_entry_cases[OF cf(2)] cf(1) show ?thesis
      unfolding p_def[symmetric] by auto
  qed
qed

lemma modified_fields:
  assumes "distinct (map fst b)" "distinct (map fst c)" "r \<in> set (detect_changes b c)"
    "change_type r = MODIFIED"
  shows "\<exists>bf cf. map_of b (file_path r) = Some bf \<and> map_of c (file_path r) = Some cf \<and>
           hash_sha256 bf \<noteq> hash_sha256 cf \<and>
           old_hash r = Some (hash_sha256 bf) \<and> new_hash r = Some (hash_sha256 cf) \<and>
           old_size r = Some (size_bytes bf) \<and> new_size r = Some (size_bytes cf)"
  using record_cases[OF assms(1,2,3)] assms(4) by auto

lemma removed_fields:
  assumes "distinct (map fst b)" "distinct (map fst c)" "r \<in> set (detect_changes b c)"
    "change_type r = REMOVED"
  shows "\<exists>bf. map_of b (file_path r) = Some bf \<and> map_of c (file_path r) = None \<and>
           old_hash r = Some (hash_sha256 bf) \<and> new_hash r = None \<and>
           old_size r = None \<and> new_size r = None"
  using record_cases[OF assms(1,2,3)] assms(4) by auto

lemma added_fields:
  assumes "distinct (map fst b)" "distinct (map fst c)" "r \<in> set (detect_changes b c)"
    "change_type r = ADDED"
  shows "\<exists>cf. map_of b (file_path r) = None \<and> map_of c (file_path r) = Some cf \<and>
           old_hash r = None \<and> new_hash r = Some (hash_sha256 cf) \<and>
           old_size r = None \<and> new_size r = Some (size_bytes cf)"
  using record_cases[OF assms(1,2,3)] assms(4) by auto

lemma modified_iff:
  assumes "distinct (map fst b)" "distinct (map fst c)"
    "map_of b p = Some bf" "map_of c p = Some cf"
  shows "(\<exists>r \<in> set (detect_changes b c). file_path r = p \<and> change_type r = MODIFIED) \<longleftrightarrow>
         hash_sha256 bf \<noteq> hash_sha256 cf"
proof -
  have "records_for p (detect_changes b c) = check_baseline_entry c (p, bf)"
    using records_for_detect_changes[OF assms(1,2), of p] assms(3,4)
    by (simp add: check_current_entry_def)
  then have "set (check_baseline_entry c (p, bf)) = set (records_for p (detect_changes b c))"
    by simp
  then have "set (check_baseline_entry c (p, bf)) = {r \<in> set (detect_changes b c). file_path r = p}"
    unfolding records_for_def set_filter .
  then have "(\<exists>r \<in> set (detect_changes b c). file_path r = p \<and> change_type r = MODIFIED) \<longleftrightarrow>
        (\<exists>r \<in> set (check_baseline_entry c (p, bf)). change_type r = MODIFIED)"
    by auto
  then show ?thesis
    using assms(4) by (simp add: check_baseline_entry_def)
qed

lemma distinct_dict_by_path_aux:
  "distinct (map fst d) \<Longrightarrow> distinct (map fst (foldl (\<lambda>d f. AList.update (path f) f d) d fs))"
  by (induction fs arbitrary: d) (simp_all add: distinct_update)

lemma distinct_dict_by_path: "distinct (map fst (dict_by_path fs))"
  unfolding dict_by_path_def by (rule distinct_dict_by_path_aux) simp

lemma both_empty_unchanged:
  assumes "distinct (map fst b)" "distinct (map fst c)"
    "map_of b p = Some bf" "map_of c p = Some cf" "hash_sha256 bf = hash_sha256 cf"
  shows "records_for p (detect_changes b c) = []"
  using records_for_detect_changes[OF assms(1,2), of p] assms(3,4,5)
  by (simp add: check_baseline_entry_def check_current_entry_def)

lemma check_integrity_changes:
  "get_latest_baseline db bpath = Some bid \<Longrightarrow>
   fst (check_integrity L sc fs db bpath) =
     detect_changes (get_baseline_files db bid) (dict_by_path (fst (scan_directory L sc fs bpath)))"
  by (simp add: check_integrity_def Let_def split: prod.splits)

lemma check_integrity_no_write:
  "fst (check_integrity L sc fs db bpath) = [] \<Longrightarrow> fst (snd (check_integrity L sc fs db bpath)) = db"
  by (auto simp: check_integrity_def Let_def split: prod.splits option.splits if_splits)


text \<open>
  C1. For dictionaries \<open>b\<close> (baseline) and \<open>c\<close> (current) with distinct keys, as every
  Python dictionary has, the records of the diff for any path \<open>p\<close> are: for a path in
  both, none when the SHA-256 digests agree and exactly one MODIFIED record otherwise; for
  a path only in the baseline exactly one REMOVED record; for a path only in the current
  scan exactly one ADDED record; for any other path none. The numbers of ADDED, MODIFIED
  and REMOVED records and of unchanged paths add up to the size of the union of the key
  sets, and no path has two records.
\<close>

theorem classification_complete_exclusive:
  assumes "distinct (map fst b)" and "distinct (map fst c)"
  shows "(\<forall>p. map change_type (records_for p (detect_changes b c)) =
            (if p \<in> dict_keys b \<and> p \<in> dict_keys c
             then (if map_option hash_sha256 (map_of b p) = map_option hash_sha256 (map_of c p)
                   then [] else [MODIFIED])
             else if p \<in> dict_keys b then [REMOVED]
             else if p \<in> dict_keys c then [ADDED]
             else [])) \<and>
         count_type ADDED (detect_changes b c) + count_type MODIFIED (detect_changes b c) +
           count_type REMOVED (detect_changes b c) + unchanged_count b c =
           card (dict_keys b \<union> dict_keys c) \<and>
         distinct (map file_path (detect_changes b c)) \<and>
         set (map file_path (detect_changes b c)) \<subseteq> dict_keys b \<union> dict_keys c"
proof -
  have "map change_type (records_for p (detect_changes b c)) =
            (if p \<in> dict_keys b \<and> p \<in> dict_keys c
             then (if map_option hash_sha256 (map_of b p) = map_option hash_sha256 (map_of c p)
                   then [] else [MODIFIED])
             else if p \<in> dict_keys b then [REMOVED]
             else if p \<in> dict_keys c then [ADDED]
             else [])" for p
    unfolding classify_path[OF assms]
    by (cases "map_of b p"; cases "map_of c p") (simp_all add: in_dict_keys)
  then show ?thesis
    using counts_sum[OF assms] distinct_paths[OF assms] paths_in_union[of b c] by blast
qed

theorem classification_complete_exclusive_witness:
  "distinct (map fst example_baseline) \<and> distinct (map fst example_current) \<and>
   map change_type (records_for ''/d/a.txt'' (detect_changes example_baseline example_current))
     = [MODIFIED] \<and>
   map change_type (records_for ''/d/b.txt'' (detect_changes example_baseline example_current))
     = [REMOVED] \<and>
   map change_type (records_for ''/d/c.txt'' (detect_changes example_baseline example_current))
     = [ADDED] \<and>
   map change_type (records_for ''/d/k.txt'' (detect_changes example_baseline example_current))
     = [] \<and>
   count_type ADDED (detect_changes example_baseline example_current) +
     count_type MODIFIED (detect_changes example_baseline example_current) +
     count_type REMOVED (detect_changes example_baseline example_current) +
     unchanged_count example_baseline example_current = 4"
proof -
  have b: "distinct (map fst example_baseline)" by (simp add: example_baseline_def)
  have c: "distinct (map fst example_current)" by (simp add: example_current_def)
  have keys: "dict_keys example_baseline = {''/d/a.txt'', ''/d/b.txt'', ''/d/k.txt''}"
             "dict_keys example_current = {''/d/a.txt'', ''/d/k.txt'', ''/d/c.txt''}"
    by (simp_all add: dict_keys_def example_baseline_def example_current_def)
  have "dict_keys example_baseline \<union> dict_keys example_current =
          {''/d/a.txt'', ''/d/b.txt'', ''/d/k.txt'', ''/d/c.txt''}"
    unfolding keys by auto
  then have un: "card (dict_keys example_baseline \<union> dict_keys example_current) = 4"
    by simp
  have look:
    "map_option hash_sha256 (map_of example_baseline ''/d/a.txt'') \<noteq>
       map_option hash_sha256 (map_of example_current ''/d/a.txt'')"
    "map_option hash_sha256 (map_of example_baseline ''/d/k.txt'') =
       map_option hash_sha256 (map_of example_current ''/d/k.txt'')"
    by (simp_all add: example_baseline_def example_current_def example_info_def)
  from classification_complete_exclusive[OF b c] have
    all: "\<And>p. map change_type (records_for p (detect_changes example_baseline example_current)) =
            (if p \<in> dict_keys example_baseline \<and> p \<in> dict_keys example_current
             then (if map_option hash_sha256 (map_of example_baseline p) =
                      map_option hash_sha256 (map_of example_current p)
                   then [] else [MODIFIED])
             else if p \<in> dict_keys example_baseline then [REMOVED]
             else if p \<in> dict_keys example_current then [ADDED]
             else [])"
    and cnt: "count_type ADDED (detect_changes example_baseline example_current) +
     count_type MODIFIED (detect_changes example_baseline example_current) +
     count_type REMOVED (detect_changes example_baseline example_current) +
     unchanged_count example_baseline example_current =
     card (dict_keys example_baseline \<union> dict_keys example_current)"
    by blast+
  have "map change_type (records_for ''/d/a.txt'' (detect_changes example_baseline example_current))
     = [MODIFIED]"
    unfolding all using look(1) by (simp add: keys)
  moreover have "map change_type (records_for ''/d/b.txt'' (detect_changes example_baseline example_current))
     = [REMOVED]"
    unfolding all by (simp add: keys)
  moreover have "map change_type (records_for ''/d/c.txt'' (detect_changes example_baseline example_current))
     = [ADDED]"
    unfolding all by (simp add: keys)
  moreover have "map change_type (records_for ''/d/k.txt'' (detect_changes example_baseline example_current))
     = []"
    unfolding all using look(2) by (simp add: keys)
  ultimately show ?thesis using b c cnt un by simp
qed

lemma map_of_with_digests:
  "map_of (with_digests g d) p =
     map_option (\<lambda>f. f\<lparr>hash_sha1 := fst (g p), hash_md5 := snd (g p)\<rparr>) (map_of d p)"
  by (induction d) (auto simp: with_digests_def)

lemma baseline_entry_with_digests:
  "check_baseline_entry (with_digests h c)
     (fst e, (snd e)\<lparr>hash_sha1 := x, hash_md5 := y\<rparr>) = check_baseline_entry c e"
  by (cases e) (simp add: check_baseline_entry_def map_of_with_digests split: option.splits)

lemma current_entry_with_digests:
  "check_current_entry (with_digests g b)
     (fst e, (snd e)\<lparr>hash_sha1 := x, hash_md5 := y\<rparr>) = check_current_entry b e"
  by (cases e) (simp add: check_current_entry_def map_of_with_digests split: option.splits)

lemma detect_changes_with_digests:
  "detect_changes (with_digests g b) (with_digests h c) = detect_changes b c"
proof -
  have 1: "map (check_baseline_entry (with_digests h c)) (with_digests g b) =
           map (check_baseline_entry c) b"
    unfolding with_digests_def[of g b] map_map comp_def baseline_entry_with_digests ..
  have 2: "map (check_current_entry (with_digests g b)) (with_digests h c) =
           map (check_current_entry b) c"
    unfolding with_digests_def[of h c] map_map comp_def current_entry_with_digests ..
  show ?thesis unfolding detect_changes_def 1 2 ..
qed

text \<open>
  C2. For dictionaries with distinct keys: a path in both dictionaries has a MODIFIED record
  if and only if its two SHA-256 digests differ; storing any other SHA-1 and MD5 digests on
  either side leaves the diff unchanged; a MODIFIED record carries the baseline and current
  SHA-256 digests and sizes, a REMOVED record the baseline digest and no new-side field, an
  ADDED record the current digest and size and no old-side field; no record is UNCHANGED.
\<close>

theorem modified_iff_sha256_differs:
  assumes "distinct (map fst b)" and "distinct (map fst c)"
  shows "(\<forall>p bf cf. map_of b p = Some bf \<longrightarrow> map_of c p = Some cf \<longrightarrow>
            ((\<exists>r \<in> set (detect_changes b c). file_path r = p \<and> change_type r = MODIFIED) \<longleftrightarrow>
             hash_sha256 bf \<noteq> hash_sha256 cf)) \<and>
         (\<forall>g h. detect_changes (with_digests g b) (with_digests h c) = detect_changes b c) \<and>
         (\<forall>r \<in> set (detect_changes b c). change_type r = MODIFIED \<longrightarrow>
            (\<exists>bf cf. map_of b (file_path r) = Some bf \<and> map_of c (file_path r) = Some cf \<and>
               old_hash r = Some (hash_sha256 bf) \<and> new_hash r = Some (hash_sha256 cf) \<and>
               old_size r = Some (size_bytes bf) \<and> new_size r = Some (size_bytes cf))) \<and>
         (\<forall>r \<in> set (detect_changes b c). change_type r = REMOVED \<longrightarrow>
            (\<exists>bf. map_of b (file_path r) = Some bf \<and> map_of c (file_path r) = None \<and>
               old_hash r = Some (hash_sha256 bf) \<and> new_hash r = None \<and> new_size r = None)) \<and>
         (\<forall>r \<in> set (detect_changes b c). change_type r = ADDED \<longrightarrow>
            (\<exists>cf. map_of b (file_path r) = None \<and> map_of c (file_path r) = Some cf \<and>
               new_hash r = Some (hash_sha256 cf) \<and> new_size r = Some (size_bytes cf) \<and>
               old_hash r = None \<and> old_size r = None)) \<and>
         (\<forall>r \<in> set (detect_changes b c). change_type r \<noteq> UNCHANGED)"
proof -
  have m: "\<forall>p bf cf. map_of b p = Some bf \<longrightarrow> map_of c p = Some cf \<longrightarrow>
            ((\<exists>r \<in> set (detect_changes b c). file_path r = p \<and> change_type r = MODIFIED) \<longleftrightarrow>
             hash_sha256 bf \<noteq> hash_sha256 cf)"
    using modified_iff[OF assms] by blast
  have d: "\<forall>g h. detect_changes (with_digests g b) (with_digests h c) = detect_changes b c"
    by (simp add: detect_changes_with_digests)
  have f1: "\<forall>r \<in> set (detect_changes b c). change_type r = MODIFIED \<longrightarrow>
            (\<exists>bf cf. map_of b (file_path r) = Some bf \<and> map_of c (file_path r) = Some cf \<and>
               old_hash r = Some (hash_sha256 bf) \<and> new_hash r = Some (hash_sha256 cf) \<and>
               old_size r = Some (size_bytes bf) \<and> new_size r = Some (size_bytes cf))"
    using modified_fields[OF assms] by blast
  have f2: "\<forall>r \<in> set (detect_changes b c). change_type r = REMOVED \<longrightarrow>
            (\<exists>bf. map_of b (file_path r) = Some bf \<and> map_of c (file_path r) = None \<and>
               old_hash r = Some (hash_sha256 bf) \<and> new_hash r = None \<and> new_size r = None)"
    using removed_fields[OF assms] by blast
  have f3: "\<forall>r \<in> set (detect_changes b c). change_type r = ADDED \<longrightarrow>
            (\<exists>cf. map_of b (file_path r) = None \<and> map_of c (file_path r) = Some cf \<and>
               new_hash r = Some (hash_sha256 cf) \<and> new_size r = Some (size_bytes cf) \<and>
               old_hash r = None \<and> old_size r = None)"
    using added_fields[OF assms] by blast
  have f4: "\<forall>r \<in> set (detect_changes b c). change_type r \<noteq> UNCHANGED"
    using record_cases[OF assms] by fastforce
  show ?thesis using m d f1 f2 f3 f4 by blast
qed

lemma example_changes:
  "detect_changes example_baseline example_current =
     [\<lparr>change_type = MODIFIED, file_path = ''/d/a.txt'', old_hash = Some ''h-hello'',
       new_hash = Some ''h-hello-there'', old_size = Some 5, new_size = Some 11\<rparr>,
      \<lparr>change_type = REMOVED, file_path = ''/d/b.txt'', old_hash = Some ''h-world'',
       new_hash = None, old_size = None, new_size = None\<rparr>,
      \<lparr>change_type = ADDED, file_path = ''/d/c.txt'', old_hash = None,
       new_hash = Some ''h-new'', old_size = None, new_size = Some 3\<rparr>]"
  by (simp add: detect_changes_def example_baseline_def example_current_def example_info_def
      check_baseline_entry_def check_current_entry_def)

theorem modified_iff_sha256_differs_witness:
  "distinct (map fst example_baseline) \<and> distinct (map fst example_current) \<and>
   (\<exists>r \<in> set (detect_changes example_baseline example_current).
      file_path r = ''/d/a.txt'' \<and> change_type r = MODIFIED) \<and>
   \<not> (\<exists>r \<in> set (detect_changes example_baseline example_current).
      file_path r = ''/d/k.txt'' \<and> change_type r = MODIFIED) \<and>
   (\<exists>r \<in> set (detect_changes example_baseline example_current). change_type r = REMOVED) \<and>
   (\<exists>r \<in> set (detect_changes example_baseline example_current). change_type r = ADDED)"
proof -
  have b: "distinct (map fst example_baseline)" by (simp add: example_baseline_def)
  have c: "distinct (map fst example_current)" by (simp add: example_current_def)
  note t = modified_iff_sha256_differs[OF b c]
  have a: "map_of example_baseline ''/d/a.txt'' = Some (example_info ''/d/a.txt'' ''h-hello'' 5)"
          "map_of example_current ''/d/a.txt'' = Some (example_info ''/d/a.txt'' ''h-hello-there'' 11)"
          "hash_sha256 (example_info ''/d/a.txt'' ''h-hello'' 5) \<noteq>
           hash_sha256 (example_info ''/d/a.txt'' ''h-hello-there'' 11)"
    by (simp_all add: example_baseline_def example_current_def example_info_def)
  have k: "map_of example_baseline ''/d/k.txt'' = Some (example_info ''/d/k.txt'' ''h-keep'' 4)"
          "map_of example_current ''/d/k.txt'' = Some (example_info ''/d/k.txt'' ''h-keep'' 4)"
    by (simp_all add: example_baseline_def example_current_def example_info_def)
  have 1: "\<exists>r \<in> set (detect_changes example_baseline example_current).
      file_path r = ''/d/a.txt'' \<and> change_type r = MODIFIED"
    using t a by blast
  have 2: "\<not> (\<exists>r \<in> set (detect_changes example_baseline example_current).
      file_path r = ''/d/k.txt'' \<and> change_type r = MODIFIED)"
    using t k by blast
  have 3: "\<exists>r \<in> set (detect_changes example_baseline example_current). change_type r = REMOVED"
       "\<exists>r \<in> set (detect_changes example_baseline example_current). change_type r = ADDED"
    unfolding example_changes by simp_all
  show ?thesis using b c 1 2 3 by blast
qed

section \<open>Properties of the scanner\<close>

lemma read_loop_read_all:
  "read_loop rs (a, b, c) = map_option (\<lambda>x. (a @ x, b @ x, c @ x)) (read_all rs)"
proof (induction rs arbitrary: a b c)
  case Nil
  then show ?case by simp
next
  case (Cons r rs)
  show ?case
  proof (cases r)
    case (Chunk x)
    then show ?thesis
      using Cons.IH[of "a @ x" "b @ x" "c @ x"]
      by (cases "read_all rs") simp_all
  next
    case ReadError
    then show ?thesis by simp
  qed
qed

lemma hash_body_content:
  "hash_body f = map_option (\<lambda>x. (x, x, x)) (file_content f)"
  by (simp add: hash_body_def file_content_def read_loop_read_all)

lemma calculate_hashes_content:
  "fst (calculate_hashes L p f) =
     (case file_content f of
        Some c \<Rightarrow> (sha256_hex L c, sha1_hex L c, md5_hex L c)
      | None \<Rightarrow> ([], [], []))"
  by (simp add: calculate_hashes_def hash_body_content split: option.splits)

lemma read_all_chunks:
  "0 < n \<Longrightarrow> read_all (map Chunk (chunks n xs)) = Some xs"
proof (induction n xs rule: chunks.induct)
  case (1 n xs)
  show ?case
  proof (cases "xs = []")
    case True
    then show ?thesis by (simp add: chunks.simps)
  next
    case False
    then have "read_all (map Chunk (chunks n (drop n xs))) = Some (drop n xs)"
      using 1 by simp
    then show ?thesis
      using False "1.prems" by (subst chunks.simps) simp
  qed
qed

lemma regular_file_content: "file_content (regular_file s c) = Some c"
  by (simp add: file_content_def regular_file_def read_all_chunks)

lemma process_file_Some:
  assumes "fst (process_file L sc p f) = Some x"
  shows "\<not> should_exclude L sc p \<and> path x = p \<and>
         (\<exists>s. stat f = Some s \<and> st_size s \<le> max_file_size sc \<and> size_bytes x = st_size s) \<and>
         (hash_sha256 x, hash_sha1 x, hash_md5 x) = fst (calculate_hashes L p f)"
  using assms
  by (auto simp: process_file_def split: if_splits option.splits prod.splits)

lemma process_file_included:
  assumes "\<not> should_exclude L sc p" "stat f = Some s" "st_size s \<le> max_file_size sc"
  shows "\<exists>x. fst (process_file L sc p f) = Some x \<and> path x = p \<and> size_bytes x = st_size s \<and>
           (hash_sha256 x, hash_sha1 x, hash_md5 x) = fst (calculate_hashes L p f)"
  using assms by (auto simp: process_file_def split: prod.splits)

lemma process_file_too_large:
  assumes "\<not> should_exclude L sc p" "stat f = Some s" "st_size s > max_file_size sc"
  shows "process_file L sc p f = (None, [(WARNING, SkippingLargeFile p (st_size s))])"
  using assms by (simp add: process_file_def)

lemma map_filter_map: "List.map_filter f (map g xs) = List.map_filter (f \<circ> g) xs"
  by (induction xs) (simp_all add: map_filter_simps split: option.splits)

lemma set_map_filter: "set (List.map_filter f xs) = {y. \<exists>x \<in> set xs. f x = Some y}"
  by (induction xs) (auto simp: map_filter_simps split: option.splits)

lemma scan_files:
  assumes "fs (abspath L d) = Some node"
  shows "fst (scan_directory L sc fs d) =
           List.map_filter (\<lambda>(p, f). fst (process_file L sc p f))
             (walked_files L sc (abspath L d) node)"
  using assms
  by (simp add: scan_directory_def Let_def map_filter_map comp_def case_prod_unfold)

lemma scan_files_missing:
  assumes "fs (abspath L d) = None"
  shows "scan_directory L sc fs d = ([], [(ERROR, DirectoryDoesNotExist (abspath L d))])"
  using assms by (simp add: scan_directory_def)

lemma in_scan_iff:
  assumes "fs (abspath L d) = Some node"
  shows "x \<in> set (fst (scan_directory L sc fs d)) \<longleftrightarrow>
         (\<exists>(p, f) \<in> set (walked_files L sc (abspath L d) node). fst (process_file L sc p f) = Some x)"
  unfolding scan_files[where fs=fs and L=L and d=d, OF assms] set_map_filter by force

lemma scan_paths:
  assumes "fs (abspath L d) = Some node"
  shows "map path (fst (scan_directory L sc fs d)) =
           map fst (filter (\<lambda>(p, f). \<not> should_exclude L sc p \<and>
                              (\<exists>s. stat f = Some s \<and> st_size s \<le> max_file_size sc))
                      (walked_files L sc (abspath L d) node))"
proof -
  have "map path (List.map_filter (\<lambda>(p, f). fst (process_file L sc p f)) ws) =
        map fst (filter (\<lambda>(p, f). \<not> should_exclude L sc p \<and>
                              (\<exists>s. stat f = Some s \<and> st_size s \<le> max_file_size sc)) ws)" for ws
  proof (induction ws)
    case Nil
    then show ?case by (simp add: map_filter_def)
  next
    case (Cons w ws)
    obtain p f where w: "w = (p, f)" by (cases w)
    show ?case
    proof (cases "fst (process_file L sc p f)")
      case None
      then have "\<not> (\<not> should_exclude L sc p \<and>
                              (\<exists>s. stat f = Some s \<and> st_size s \<le> max_file_size sc))"
        using process_file_included[of L sc p f] by fastforce
      then show ?thesis using Cons None w by (simp add: map_filter_def)
    next
      case (Some x)
      from process_file_Some[OF Some] show ?thesis
        using Cons Some w by (auto simp: map_filter_def)
    qed
  qed
  then show ?thesis unfolding scan_files[where fs=fs and L=L and d=d, OF assms] .
qed


lemma scan_hashes:
  assumes "x \<in> set (fst (scan_directory L sc fs d))"
  shows "\<exists>p f. (hash_sha256 x, hash_sha1 x, hash_md5 x) = fst (calculate_hashes L p f)"
proof (cases "fs (abspath L d)")
  case None
  then show ?thesis using assms by (simp add: scan_directory_def)
next
  case (Some node)
  from assms obtain p f where "fst (process_file L sc p f) = Some x"
    unfolding in_scan_iff[where fs=fs and L=L and d=d, OF Some] by auto
  from process_file_Some[OF this] show ?thesis by blast
qed

lemma scan_includes:
  assumes "fs (abspath L d) = Some node"
    and "(p, f) \<in> set (walked_files L sc (abspath L d) node)"
    and "\<not> should_exclude L sc p" and "stat f = Some s" and "st_size s \<le> max_file_size sc"
  shows "\<exists>x \<in> set (fst (scan_directory L sc fs d)). path x = p \<and> size_bytes x = st_size s \<and>
           (hash_sha256 x, hash_sha1 x, hash_md5 x) = fst (calculate_hashes L p f)"
proof -
  from process_file_included[OF assms(3,4,5)] obtain x where
    x: "fst (process_file L sc p f) = Some x" "path x = p" "size_bytes x = st_size s"
       "(hash_sha256 x, hash_sha1 x, hash_md5 x) = fst (calculate_hashes L p f)"
    by blast
  have "x \<in> set (fst (scan_directory L sc fs d))"
    unfolding in_scan_iff[where fs=fs and L=L and d=d, OF assms(1)] using assms(2) x(1) by force
  then show ?thesis using x by blast
qed

text \<open>
  C3. \<^verbatim>\<open>_calculate_hashes\<close> returns the SHA-256, SHA-1 and MD5 hex digests of
  the bytes a complete read of the file delivers, or three empty strings when the file does
  not open or a read fails; a healthy file delivers exactly its content. Every record of a
  scan has three empty digests or the three digests of one byte sequence. Which files a
  scan records depends only on exclusion, \<^verbatim>\<open>os.stat\<close> and the size limit, not on
  whether hashing succeeds: every walked file that is not excluded, can be stat'ed and is
  within the limit has a record, with the digests just described, whatever happens to the
  other files.
\<close>

theorem hashes_all_or_nothing:
  "fst (calculate_hashes L p f) =
     (case file_content f of
        Some c \<Rightarrow> (sha256_hex L c, sha1_hex L c, md5_hex L c)
      | None \<Rightarrow> ([], [], [])) \<and>
   file_content (regular_file s c) = Some c \<and>
   (\<forall>x \<in> set (fst (scan_directory L sc fs d)).
      (hash_sha256 x = [] \<and> hash_sha1 x = [] \<and> hash_md5 x = []) \<or>
      (\<exists>c. hash_sha256 x = sha256_hex L c \<and> hash_sha1 x = sha1_hex L c \<and>
           hash_md5 x = md5_hex L c)) \<and>
   (fs (abspath L d) = Some node \<longrightarrow>
      map path (fst (scan_directory L sc fs d)) =
        map fst (filter (\<lambda>(q, g). \<not> should_exclude L sc q \<and>
                           (\<exists>t. stat g = Some t \<and> st_size t \<le> max_file_size sc))
                   (walked_files L sc (abspath L d) node)) \<and>
      (\<forall>(q, g) \<in> set (walked_files L sc (abspath L d) node).
         \<not> should_exclude L sc q \<longrightarrow>
         (\<forall>t. stat g = Some t \<longrightarrow> st_size t \<le> max_file_size sc \<longrightarrow>
            (\<exists>x \<in> set (fst (scan_directory L sc fs d)). path x = q \<and>
               (hash_sha256 x, hash_sha1 x, hash_md5 x) =
                 (case file_content g of
                    Some c \<Rightarrow> (sha256_hex L c, sha1_hex L c, md5_hex L c)
                  | None \<Rightarrow> ([], [], []))))))"
proof -
  have 1: "\<forall>x \<in> set (fst (scan_directory L sc fs d)).
      (hash_sha256 x = [] \<and> hash_sha1 x = [] \<and> hash_md5 x = []) \<or>
      (\<exists>c. hash_sha256 x = sha256_hex L c \<and> hash_sha1 x = sha1_hex L c \<and>
           hash_md5 x = md5_hex L c)"
  proof
    fix x assume "x \<in> set (fst (scan_directory L sc fs d))"
    from scan_hashes[OF this] obtain q g where
      h: "(hash_sha256 x, hash_sha1 x, hash_md5 x) = fst (calculate_hashes L q g)" by blast
    show "(hash_sha256 x = [] \<and> hash_sha1 x = [] \<and> hash_md5 x = []) \<or>
      (\<exists>c. hash_sha256 x = sha256_hex L c \<and> hash_sha1 x = sha1_hex L c \<and>
           hash_md5 x = md5_hex L c)"
      using h unfolding calculate_hashes_content by (cases "file_content g") auto
  qed
  have 2: "fs (abspath L d) = Some node \<longrightarrow>
      (\<forall>(q, g) \<in> set (walked_files L sc (abspath L d) node).
         \<not> should_exclude L sc q \<longrightarrow>
         (\<forall>t. stat g = Some t \<longrightarrow> st_size t \<le> max_file_size sc \<longrightarrow>
            (\<exists>x \<in> set (fst (scan_directory L sc fs d)). path x = q \<and>
               (hash_sha256 x, hash_sha1 x, hash_md5 x) =
                 (case file_content g of
                    Some c \<Rightarrow> (sha256_hex L c, sha1_hex L c, md5_hex L c)
                  | None \<Rightarrow> ([], [], [])))))"
    using scan_includes[where fs=fs and L=L and d=d and node=node and sc=sc]
    unfolding calculate_hashes_content by fast
  show ?thesis
    using calculate_hashes_content[of L p f] regular_file_content[of s c] 1 2
      scan_paths[where fs=fs and L=L and d=d and node=node and sc=sc]
    by simp
qed

lemma distinct_fst_unique:
  "distinct (map fst xs) \<Longrightarrow> (k, v) \<in> set xs \<Longrightarrow> (k, v') \<in> set xs \<Longrightarrow> v = v'"
  by (meson eq_key_imp_eq_value)

text \<open>
  C6. For a file the scan reaches that is not excluded and whose \<^verbatim>\<open>os.stat\<close>
  succeeds (paths of the walk being distinct, as in any file system): if its size is at most
  \<^verbatim>\<open>max_file_size\<close> the result has a record for it with that size; if its size is
  larger the result has no record for its path, and the loop body yields nothing but the
  warning that the file was skipped.
\<close>

theorem size_gate:
  assumes "fs (abspath L d) = Some node"
    and "(p, f) \<in> set (walked_files L sc (abspath L d) node)"
    and "\<not> should_exclude L sc p" and "stat f = Some s"
    and "distinct (map fst (walked_files L sc (abspath L d) node))"
  shows "(st_size s \<le> max_file_size sc \<longrightarrow>
            (\<exists>x \<in> set (fst (scan_directory L sc fs d)). path x = p \<and> size_bytes x = st_size s)) \<and>
         (max_file_size sc < st_size s \<longrightarrow>
            (\<forall>x \<in> set (fst (scan_directory L sc fs d)). path x \<noteq> p) \<and>
            process_file L sc p f = (None, [(WARNING, SkippingLargeFile p (st_size s))]))"
proof (intro conjI impI)
  assume "st_size s \<le> max_file_size sc"
  from scan_includes[where fs=fs and L=L and d=d, OF assms(1,2,3,4) this]
  show "\<exists>x \<in> set (fst (scan_directory L sc fs d)). path x = p \<and> size_bytes x = st_size s"
    by blast
next
  assume big: "max_file_size sc < st_size s"
  show skip: "process_file L sc p f = (None, [(WARNING, SkippingLargeFile p (st_size s))])"
    using process_file_too_large[OF assms(3,4)] big by simp
  show "\<forall>x \<in> set (fst (scan_directory L sc fs d)). path x \<noteq> p"
  proof
    fix x assume "x \<in> set (fst (scan_directory L sc fs d))"
    then obtain q g where qg: "(q, g) \<in> set (walked_files L sc (abspath L d) node)"
        "fst (process_file L sc q g) = Some x"
      unfolding in_scan_iff[where fs=fs and L=L and d=d, OF assms(1)] by auto
    show "path x \<noteq> p"
    proof
      assume "path x = p"
      with process_file_Some[OF qg(2)] have "q = p" by simp
      with qg(1) assms(2,5) have "g = f" using distinct_fst_unique by fast
      with qg(2) \<open>q = p\<close> skip show False by simp
    qed
  qed
qed

lemma calculate_hashes_log: "(lv, m) \<in> set (snd (calculate_hashes L p f)) \<Longrightarrow> lv = WARNING"
  by (auto simp: calculate_hashes_def split: option.splits prod.splits)

lemma process_file_log: "(lv, m) \<in> set (snd (process_file L sc p f)) \<Longrightarrow> lv = WARNING"
  using calculate_hashes_log[of lv m L p f]
  by (auto simp: process_file_def split: if_splits option.splits prod.splits)

lemma scan_log_no_error:
  assumes "fs (abspath L d) = Some node"
  shows "(ERROR, m) \<notin> set (snd (scan_directory L sc fs d))"
proof
  assume "(ERROR, m) \<in> set (snd (scan_directory L sc fs d))"
  then obtain q g where "(ERROR, m) \<in> set (snd (process_file L sc q g))"
    using assms by (auto simp: scan_directory_def Let_def)
  from process_file_log[OF this] show False by simp
qed

text \<open>
  C8. When the root path does not exist the scan returns no files and logs exactly one
  record, the ERROR \<^verbatim>\<open>Directory does not exist\<close>; a scan of an existing path never
  logs an ERROR record, so the two are told apart by the log (the returned list alone is
  empty in both cases). \<^verbatim>\<open>create_baseline\<close> returns \<^verbatim>\<open>None\<close> and leaves the
  database as it was whenever the scan returns no files, for a missing path and for an
  empty scan alike, and returns the new baseline id otherwise.
\<close>

theorem missing_root_signalled:
  "(fs (abspath L d) = None \<longrightarrow>
      scan_directory L sc fs d = ([], [(ERROR, DirectoryDoesNotExist (abspath L d))])) \<and>
   (fs (abspath L d) \<noteq> None \<longrightarrow> (\<forall>m. (ERROR, m) \<notin> set (snd (scan_directory L sc fs d)))) \<and>
   (fst (scan_directory L sc fs d) = [] \<longrightarrow>
      fst (create_baseline L sc fs clk db d name) = None \<and>
      fst (snd (create_baseline L sc fs clk db d name)) = db) \<and>
   (fst (scan_directory L sc fs d) \<noteq> [] \<longrightarrow>
      fst (create_baseline L sc fs clk db d name) = Some (next_baseline_id db))"
proof -
  have 1: "fs (abspath L d) = None \<longrightarrow>
      scan_directory L sc fs d = ([], [(ERROR, DirectoryDoesNotExist (abspath L d))])"
    by (simp add: scan_files_missing)
  have 2: "fs (abspath L d) \<noteq> None \<longrightarrow> (\<forall>m. (ERROR, m) \<notin> set (snd (scan_directory L sc fs d)))"
    using scan_log_no_error[where fs=fs and L=L and d=d] by blast
  have 3: "fst (scan_directory L sc fs d) = [] \<longrightarrow>
      fst (create_baseline L sc fs clk db d name) = None \<and>
      fst (snd (create_baseline L sc fs clk db d name)) = db"
    by (simp add: create_baseline_def Let_def split: prod.splits)
  have 4: "fst (scan_directory L sc fs d) \<noteq> [] \<longrightarrow>
      fst (create_baseline L sc fs clk db d name) = Some (next_baseline_id db)"
    by (simp add: create_baseline_def db_create_baseline_def Let_def split: prod.splits)
  show ?thesis using 1 2 3 4 by blast
qed

section \<open>The example directory\<close>

lemma chunks_small:
  assumes "xs \<noteq> []" "length xs \<le> n"
  shows "chunks n xs = [xs]"
proof -
  have "0 < n" using assms by (cases xs) auto
  then show ?thesis using assms by (subst chunks.simps) (simp add: chunks.simps)
qed

lemma example_walked:
  "walked_files example_lib example_scanner ''/d'' example_tree =
     [(''/d/a.txt'', regular_file (example_stat 5) ''hello''),
      (''/d/edge.bin'', regular_file (example_stat 10) ''0123456789''),
      (''/d/big.bin'', regular_file (example_stat 11) ''0123456789A''),
      (''/d/locked'', \<lparr>stat = Some (example_stat 3), opens = False, reads = []\<rparr>),
      (''/d/torn'', \<lparr>stat = Some (example_stat 4), opens = True,
                      reads = [Chunk ''ab'', ReadError]\<rparr>),
      (''/d/x.tmp'', regular_file (example_stat 1) ''x''),
      (''/d/sub/c.txt'', regular_file (example_stat 3) ''new'')]"
  by (simp add: walked_files_def scan_walk_def example_tree_def map_filter_simps
      should_exclude_def example_lib_def example_scanner_def example_match_def
      path_name_def endswith_def startswith_def path_join_def)


lemma example_abspath: "abspath example_lib p = p"
  by (simp add: example_lib_def)

lemma example_root: "example_fs (abspath example_lib ''/d'') = Some example_tree"
  by (simp add: example_fs_def example_lib_def)

lemma example_not_excluded:
  "\<not> should_exclude example_lib example_scanner ''/d/locked''"
  "\<not> should_exclude example_lib example_scanner ''/d/sub/c.txt''"
  "\<not> should_exclude example_lib example_scanner ''/d/edge.bin''"
  "\<not> should_exclude example_lib example_scanner ''/d/big.bin''"
  by (simp_all add: should_exclude_def example_lib_def example_scanner_def example_match_def
      path_name_def endswith_def startswith_def)

lemma example_scan_paths:
  "map path (fst (scan_directory example_lib example_scanner example_fs ''/d'')) =
     [''/d/a.txt'', ''/d/edge.bin'', ''/d/locked'', ''/d/torn'', ''/d/sub/c.txt'']"
  unfolding scan_paths[where fs=example_fs and L=example_lib and d="''/d''", OF example_root]
    example_abspath example_walked
  by (simp add: should_exclude_def example_lib_def example_scanner_def example_match_def
      path_name_def endswith_def startswith_def regular_file_def example_stat_def)

theorem hashes_all_or_nothing_witness:
  "example_fs (abspath example_lib ''/d'') = Some example_tree \<and>
   file_content \<lparr>stat = Some (example_stat 3), opens = False, reads = []\<rparr> = None \<and>
   (\<exists>x \<in> set (fst (scan_directory example_lib example_scanner example_fs ''/d'')).
      path x = ''/d/locked'' \<and> (hash_sha256 x, hash_sha1 x, hash_md5 x) = ([], [], [])) \<and>
   (\<exists>x \<in> set (fst (scan_directory example_lib example_scanner example_fs ''/d'')).
      path x = ''/d/sub/c.txt'' \<and>
      (hash_sha256 x, hash_sha1 x, hash_md5 x) = (''sha256:new'', ''sha1:new'', ''md5:new''))"
proof -
  let ?locked = "\<lparr>stat = Some (example_stat 3), opens = False, reads = []\<rparr>"
  let ?new = "regular_file (example_stat 3) ''new''"
  let ?scan = "fst (scan_directory example_lib example_scanner example_fs ''/d'')"
  let ?digests = "\<lambda>g. case file_content g of
                    Some c \<Rightarrow> (sha256_hex example_lib c, sha1_hex example_lib c, md5_hex example_lib c)
                  | None \<Rightarrow> ([], [], [])"
  have mem: "(''/d/locked'', ?locked) \<in>
               set (walked_files example_lib example_scanner (abspath example_lib ''/d'') example_tree)"
            "(''/d/sub/c.txt'', ?new) \<in>
               set (walked_files example_lib example_scanner (abspath example_lib ''/d'') example_tree)"
    unfolding example_abspath example_walked by simp_all
  have st: "stat ?locked = Some (example_stat 3)" "stat ?new = Some (example_stat 3)"
           "st_size (example_stat 3) \<le> max_file_size example_scanner"
    by (simp_all add: regular_file_def example_stat_def example_scanner_def)
  have content: "file_content ?locked = None" "file_content ?new = Some ''new''"
    by (simp add: file_content_def) (rule regular_file_content)
  from hashes_all_or_nothing[where L=example_lib and sc=example_scanner and fs=example_fs
        and d="''/d''" and node=example_tree] example_root
  have all: "\<forall>(q, g) \<in> set (walked_files example_lib example_scanner
                              (abspath example_lib ''/d'') example_tree).
         \<not> should_exclude example_lib example_scanner q \<longrightarrow>
         (\<forall>t. stat g = Some t \<longrightarrow> st_size t \<le> max_file_size example_scanner \<longrightarrow>
            (\<exists>x \<in> set ?scan. path x = q \<and>
               (hash_sha256 x, hash_sha1 x, hash_md5 x) = ?digests g))"
    by blast
  from all mem(1) example_not_excluded(1) st(1,3)
  have 1: "\<exists>x \<in> set ?scan. path x = ''/d/locked'' \<and>
             (hash_sha256 x, hash_sha1 x, hash_md5 x) = ?digests ?locked"
    by fast
  from all mem(2) example_not_excluded(2) st(2,3)
  have 2: "\<exists>x \<in> set ?scan. path x = ''/d/sub/c.txt'' \<and>
             (hash_sha256 x, hash_sha1 x, hash_md5 x) = ?digests ?new"
    by fast
  have d: "?digests ?locked = ([], [], [])"
          "?digests ?new = (''sha256:new'', ''sha1:new'', ''md5:new'')"
    unfolding content by (simp_all add: example_lib_def)
  show ?thesis using example_root content(1) 1 2 unfolding d by blast
qed

lemma example_distinct:
  "distinct (map fst (walked_files example_lib example_scanner
                        (abspath example_lib ''/d'') example_tree))"
  unfolding example_abspath example_walked by simp

theorem size_gate_witness:
  "example_fs (abspath example_lib ''/d'') = Some example_tree \<and>
   max_file_size example_scanner = 10 \<and>
   stat (regular_file (example_stat 10) ''0123456789'') = Some (example_stat 10) \<and>
   stat (regular_file (example_stat 11) ''0123456789A'') = Some (example_stat 11) \<and>
   (\<exists>x \<in> set (fst (scan_directory example_lib example_scanner example_fs ''/d'')).
      path x = ''/d/edge.bin'' \<and> size_bytes x = 10) \<and>
   ''/d/big.bin'' \<notin> set (map path (fst (scan_directory example_lib example_scanner example_fs ''/d'')))"
proof -
  let ?edge = "regular_file (example_stat 10) ''0123456789''"
  let ?big = "regular_file (example_stat 11) ''0123456789A''"
  have mem: "(''/d/edge.bin'', ?edge) \<in>
               set (walked_files example_lib example_scanner (abspath example_lib ''/d'') example_tree)"
            "(''/d/big.bin'', ?big) \<in>
               set (walked_files example_lib example_scanner (abspath example_lib ''/d'') example_tree)"
    unfolding example_abspath example_walked by simp_all
  have st: "stat ?edge = Some (example_stat 10)" "stat ?big = Some (example_stat 11)"
    by (simp_all add: regular_file_def)
  have sz: "st_size (example_stat 10) = 10" "st_size (example_stat 11) = 11"
           "max_file_size example_scanner = 10"
    by (simp_all add: example_stat_def example_scanner_def)
  from size_gate[where fs=example_fs and L=example_lib and d="''/d''", OF example_root mem(1)
        example_not_excluded(3) st(1) example_distinct]
  have 1: "\<exists>x \<in> set (fst (scan_directory example_lib example_scanner example_fs ''/d'')).
      path x = ''/d/edge.bin'' \<and> size_bytes x = 10"
    unfolding sz by simp
  from size_gate[where fs=example_fs and L=example_lib and d="''/d''", OF example_root mem(2)
        example_not_excluded(4) st(2) example_distinct]
  have "\<forall>x \<in> set (fst (scan_directory example_lib example_scanner example_fs ''/d'')).
      path x \<noteq> ''/d/big.bin''"
    unfolding sz by simp
  then have 2: "''/d/big.bin'' \<notin>
      set (map path (fst (scan_directory example_lib example_scanner example_fs ''/d'')))"
    by auto
  show ?thesis using example_root sz(3) st 1 2 by blast
qed

theorem missing_root_signalled_witness:
  "example_fs (abspath example_lib ''/nowhere'') = None \<and>
   scan_directory example_lib example_scanner example_fs ''/nowhere'' =
     ([], [(ERROR, DirectoryDoesNotExist ''/nowhere'')]) \<and>
   fst (create_baseline example_lib example_scanner example_fs (example_clock 200)
          example_db_one ''/nowhere'' None) = None \<and>
   example_empty_fs (abspath example_lib ''/d'') \<noteq> None \<and>
   fst (scan_directory example_lib example_scanner example_empty_fs ''/d'') = [] \<and>
   (ERROR, DirectoryDoesNotExist ''/d'') \<notin>
     set (snd (scan_directory example_lib example_scanner example_empty_fs ''/d'')) \<and>
   fst (create_baseline example_lib example_scanner example_empty_fs (example_clock 200)
          example_db_one ''/d'' None) = None \<and>
   fst (create_baseline example_lib example_scanner example_fs (example_clock 200)
          example_db_one ''/d'' None) = Some 2"
proof -
  have n: "example_fs (abspath example_lib ''/nowhere'') = None"
    by (simp add: example_fs_def example_lib_def)
  have e: "example_empty_fs (abspath example_lib ''/d'') \<noteq> None"
    by (simp add: example_empty_fs_def example_lib_def)
  have es: "fst (scan_directory example_lib example_scanner example_empty_fs ''/d'') = []"
    by (simp add: scan_directory_def example_empty_fs_def example_lib_def walked_files_def
        scan_walk_def map_filter_simps)
  note t1 = missing_root_signalled[where fs=example_fs and L=example_lib and d="''/nowhere''"
      and sc=example_scanner and clk="example_clock 200" and db=example_db_one and name=None]
  note t2 = missing_root_signalled[where fs=example_empty_fs and L=example_lib and d="''/d''"
      and sc=example_scanner and clk="example_clock 200" and db=example_db_one and name=None]
  note t3 = missing_root_signalled[where fs=example_fs and L=example_lib and d="''/d''"
      and sc=example_scanner and clk="example_clock 200" and db=example_db_one and name=None]
  have 1: "scan_directory example_lib example_scanner example_fs ''/nowhere'' =
     ([], [(ERROR, DirectoryDoesNotExist ''/nowhere'')])"
    using t1 n by (simp add: example_abspath)
  then have 2: "fst (create_baseline example_lib example_scanner example_fs (example_clock 200)
          example_db_one ''/nowhere'' None) = None"
    using t1 by simp
  have 3: "(ERROR, DirectoryDoesNotExist ''/d'') \<notin>
     set (snd (scan_directory example_lib example_scanner example_empty_fs ''/d''))"
    using t2 e by blast
  have 4: "fst (create_baseline example_lib example_scanner example_empty_fs (example_clock 200)
          example_db_one ''/d'' None) = None"
    using t2 es by blast
  have "fst (scan_directory example_lib example_scanner example_fs ''/d'') \<noteq> []"
    using example_scan_paths by fastforce
  moreover have "next_baseline_id example_db_one = 2"
    by (simp add: next_baseline_id_def example_db_one_def db_create_baseline_def
        empty_database_def)
  ultimately have 5: "fst (create_baseline example_lib example_scanner example_fs (example_clock 200)
          example_db_one ''/d'' None) = Some 2"
    using t3 by simp
  show ?thesis using n 1 2 e es 3 4 5 by blast
qed

section \<open>Pruning of excluded directories\<close>

lemma example_permissions: "last3 (oct 33188) = ''644''"
  by (simp add: last3_def oct_def oct_digits.simps)












section \<open>Properties of the baseline store\<close>

lemma id_le_max: "i \<in> set xs \<Longrightarrow> i \<le> foldr max xs (0::int)"
  by (induction xs) auto

lemma next_baseline_id_fresh: "next_baseline_id db \<notin> set (map b_id (baselines db))"
  using id_le_max[of "next_baseline_id db" "map b_id (baselines db)"]
  by (auto simp: next_baseline_id_def)

lemma db_consistent_empty: "db_consistent empty_database"
  by (simp add: db_consistent_def empty_database_def)

lemma db_consistent_create:
  "db_consistent db \<Longrightarrow> db_consistent (snd (db_create_baseline db now name p fs))"
  by (auto simp: db_consistent_def db_create_baseline_def Let_def list_all_iff)

lemma db_consistent_record: "db_consistent db \<Longrightarrow> db_consistent (record_changes db i cs)"
  by (simp add: db_consistent_def record_changes_def)

lemma baseline_files_after_create:
  assumes "db_consistent db"
  shows "get_baseline_files (snd (db_create_baseline db now name p fs)) (next_baseline_id db) =
           dict_by_path fs"
proof -
  have "filter (\<lambda>r. f_baseline_id r = next_baseline_id db) (files db) = []"
    unfolding filter_empty_conv
  proof
    fix r assume r: "r \<in> set (files db)"
    with assms have "f_baseline_id r \<in> set (map b_id (baselines db))"
      by (simp add: db_consistent_def list_all_iff)
    with next_baseline_id_fresh[of db] show "\<not> f_baseline_id r = next_baseline_id db"
      by metis
  qed
  then show ?thesis
    by (simp add: get_baseline_files_def db_create_baseline_def Let_def comp_def)
qed

lemma distinct_map_of_entry: "distinct (map fst d) \<Longrightarrow> e \<in> set d \<Longrightarrow> map_of d (fst e) = Some (snd e)"
  by (cases e) simp

lemma detect_changes_same:
  assumes "distinct (map fst d)"
  shows "detect_changes d d = []"
proof -
  have "check_baseline_entry d e = []" if "e \<in> set d" for e
    using distinct_map_of_entry[OF assms that]
    by (cases e) (simp add: check_baseline_entry_def)
  moreover have "check_current_entry d e = []" if "e \<in> set d" for e
    using distinct_map_of_entry[OF assms that]
    by (cases e) (simp add: check_current_entry_def)
  ultimately show ?thesis by (simp add: detect_changes_def)
qed

lemma check_after_baseline:
  assumes "create_baseline L sc fs clk db d name = (Some bid, db', lg)"
    and "get_latest_baseline db' d = Some bid"
    and "db_consistent db"
  shows "fst (check_integrity L sc fs db' d) = [] \<and> fst (snd (check_integrity L sc fs db' d)) = db'"
proof -
  let ?scanned = "fst (scan_directory L sc fs d)"
  let ?name = "case name of None \<Rightarrow> ''baseline_'' @ now_stamp clk | Some n \<Rightarrow> n"
  from assms(1) have bid: "bid = next_baseline_id db"
    and db': "db' = snd (db_create_baseline db (now_seconds clk) ?name d ?scanned)"
    by (auto simp: create_baseline_def Let_def db_create_baseline_def split: prod.splits if_splits)
  have "get_baseline_files db' bid = dict_by_path ?scanned"
    unfolding bid db' by (rule baseline_files_after_create[OF assms(3)])
  then have "fst (check_integrity L sc fs db' d) = []"
    unfolding check_integrity_changes[OF assms(2)]
    by (simp add: detect_changes_same distinct_dict_by_path)
  then show ?thesis using check_integrity_no_write by blast
qed

lemma sort_key_min_last:
  assumes "\<forall>r \<in> set xs. k x < k r"
  shows "foldr (insort_key k) xs [x] = x # foldr (insort_key k) xs []"
  using assms by (induction xs) (auto simp: not_le)

lemma latest_after_create:
  assumes "\<forall>r \<in> set (baselines db). b_path r = p \<longrightarrow> b_created_at r < now"
  shows "get_latest_baseline (snd (db_create_baseline db now name p fs)) p =
           Some (next_baseline_id db)"
proof -
  let ?new = "\<lparr>b_id = next_baseline_id db, b_name = name, b_created_at = now, b_path = p,
                b_file_count = length fs, b_total_size = sum_list (map size_bytes fs)\<rparr>"
  let ?old = "filter (\<lambda>r. b_path r = p) (baselines db)"
  let ?k = "\<lambda>r. - int (b_created_at r)"
  have "\<forall>r \<in> set ?old. ?k ?new < ?k r" using assms by simp
  from sort_key_min_last[of ?old ?k ?new, OF this]
  have "sort_key ?k (?old @ [?new]) = ?new # sort_key ?k ?old"
    by (simp add: sort_key_def)
  then show ?thesis
    by (simp add: get_latest_baseline_def order_by_created_at_desc_def db_create_baseline_def Let_def)
qed

lemma sort_key_Nil_iff: "sort_key k xs = [] \<longleftrightarrow> xs = []"
  by (metis length_sort length_0_conv)

lemma latest_None_iff:
  "get_latest_baseline db p = None \<longleftrightarrow> (\<forall>r \<in> set (baselines db). b_path r \<noteq> p)"
proof -
  let ?rows = "filter (\<lambda>r. b_path r = p) (baselines db)"
  have "get_latest_baseline db p = None \<longleftrightarrow> sort_key (\<lambda>r. - int (b_created_at r)) ?rows = []"
    by (simp add: get_latest_baseline_def order_by_created_at_desc_def split: list.splits)
  also have "\<dots> \<longleftrightarrow> ?rows = []" by (rule sort_key_Nil_iff)
  finally show ?thesis by (simp add: filter_empty_conv)
qed

lemma latest_Some:
  assumes "get_latest_baseline db p = Some i"
  shows "\<exists>r \<in> set (baselines db). b_id r = i \<and> b_path r = p \<and>
           (\<forall>r' \<in> set (baselines db). b_path r' = p \<longrightarrow> b_created_at r' \<le> b_created_at r)"
proof -
  let ?k = "\<lambda>r. - int (b_created_at r)"
  let ?rows = "filter (\<lambda>r. b_path r = p) (baselines db)"
  from assms obtain r rest where s: "sort_key ?k ?rows = r # rest" "b_id r = i"
    by (auto simp: get_latest_baseline_def order_by_created_at_desc_def split: list.splits)
  have "set (sort_key ?k ?rows) = set ?rows" by simp
  with s(1) have mem: "r \<in> set ?rows" "set ?rows = insert r (set rest)" by auto
  have "sorted (map ?k (sort_key ?k ?rows))" by (rule sorted_sort_key)
  with s(1) have "\<forall>r' \<in> set rest. ?k r \<le> ?k r'" by simp
  with mem have "\<forall>r' \<in> set ?rows. b_created_at r' \<le> b_created_at r" by auto
  with mem(1) s(2) show ?thesis by auto
qed

section \<open>The check against the stored baseline\<close>

lemma regular_file_small:
  "c \<noteq> [] \<Longrightarrow> length c \<le> 8192 \<Longrightarrow>
   regular_file s c = \<lparr>stat = Some s, opens = True, reads = [Chunk c]\<rparr>"
  by (simp add: regular_file_def chunks_small)

lemmas example_eval =
  should_exclude_def example_lib_def example_scanner_def example_match_def
  path_name_def endswith_def startswith_def path_join_def map_filter_simps
  process_file_def calculate_hashes_def hash_body_def regular_file_small example_stat_def
  example_permissions

lemma example_scan:
  "fst (scan_directory example_lib example_scanner example_fs ''/d'') =
     [\<lparr>path = ''/d/a.txt'', size_bytes = 5, modified_time = 0,
       hash_sha256 = ''sha256:hello'', hash_sha1 = ''sha1:hello'',
       hash_md5 = ''md5:hello'', permissions = ''644'', inode = Some 7\<rparr>,
      \<lparr>path = ''/d/edge.bin'', size_bytes = 10, modified_time = 0,
       hash_sha256 = ''sha256:0123456789'', hash_sha1 = ''sha1:0123456789'',
       hash_md5 = ''md5:0123456789'', permissions = ''644'', inode = Some 7\<rparr>,
      \<lparr>path = ''/d/locked'', size_bytes = 3, modified_time = 0,
       hash_sha256 = [], hash_sha1 = [], hash_md5 = [],
       permissions = ''644'', inode = Some 7\<rparr>,
      \<lparr>path = ''/d/torn'', size_bytes = 4, modified_time = 0, hash_sha256 = [],
       hash_sha1 = [], hash_md5 = [], permissions = ''644'', inode = Some 7\<rparr>,
      \<lparr>path = ''/d/sub/c.txt'', size_bytes = 3, modified_time = 0,
       hash_sha256 = ''sha256:new'', hash_sha1 = ''sha1:new'',
       hash_md5 = ''md5:new'', permissions = ''644'', inode = Some 7\<rparr>]"
  unfolding scan_files[where fs=example_fs and L=example_lib and d="''/d''", OF example_root]
    example_abspath example_walked
  by (simp add: example_eval)


text \<open>
  C10. When the baseline that \<^verbatim>\<open>check_integrity\<close> selects and the current scan
  both hold a path with the empty string as SHA-256 digest (hashing failed both times), the
  result has no record for that path. When the result is empty the database is returned as
  it was: nothing is written to \<^verbatim>\<open>change_history\<close> or any other table.
\<close>

theorem both_unhashable_unchanged:
  "(get_latest_baseline db bpath = Some bid \<longrightarrow>
    map_of (get_baseline_files db bid) p = Some bf \<longrightarrow>
    map_of (dict_by_path (fst (scan_directory L sc fs bpath))) p = Some cf \<longrightarrow>
    hash_sha256 bf = [] \<longrightarrow> hash_sha256 cf = [] \<longrightarrow>
    records_for p (fst (check_integrity L sc fs db bpath)) = []) \<and>
   (fst (check_integrity L sc fs db bpath) = [] \<longrightarrow>
    fst (snd (check_integrity L sc fs db bpath)) = db)"
proof -
  have "records_for p (fst (check_integrity L sc fs db bpath)) = []"
    if "get_latest_baseline db bpath = Some bid"
      and "map_of (get_baseline_files db bid) p = Some bf"
      and "map_of (dict_by_path (fst (scan_directory L sc fs bpath))) p = Some cf"
      and "hash_sha256 bf = []" and "hash_sha256 cf = []"
    unfolding check_integrity_changes[OF that(1)]
    using both_empty_unchanged[OF _ _ that(2,3)] that(4,5)
    by (simp add: get_baseline_files_def distinct_dict_by_path)
  then show ?thesis using check_integrity_no_write by blast
qed

lemma create_baseline_db:
  assumes "fst (scan_directory L sc fs d) \<noteq> []"
  shows "create_baseline L sc fs clk db d name =
           (Some (next_baseline_id db),
            snd (db_create_baseline db (now_seconds clk)
                   (case name of None \<Rightarrow> ''baseline_'' @ now_stamp clk | Some n \<Rightarrow> n) d
                   (fst (scan_directory L sc fs d))),
            [(INFO, CreatingBaseline
                      (case name of None \<Rightarrow> ''baseline_'' @ now_stamp clk | Some n \<Rightarrow> n) d)] @
            snd (scan_directory L sc fs d) @
            [(INFO, BaselineCreated (next_baseline_id db)
                      (length (fst (scan_directory L sc fs d))))])"
proof (cases "scan_directory L sc fs d")
  case (Pair scanned lg)
  then show ?thesis
    using assms by (simp add: create_baseline_def Let_def db_create_baseline_def)
qed

lemma example_db_scan_eq:
  "example_db_scan =
     snd (db_create_baseline empty_database 200 ''baseline_20240101_000000'' ''/d''
            (fst (scan_directory example_lib example_scanner example_fs ''/d'')))"
proof -
  have "fst (scan_directory example_lib example_scanner example_fs ''/d'') \<noteq> []"
    unfolding example_scan by simp
  from create_baseline_db[OF this] show ?thesis
    by (simp add: example_db_scan_def example_clock_def)
qed

lemma next_id_empty: "next_baseline_id empty_database = 1"
  by (simp add: next_baseline_id_def empty_database_def)

lemma example_db_scan_latest: "get_latest_baseline example_db_scan ''/d'' = Some 1"
  unfolding example_db_scan_eq
  using latest_after_create[of empty_database "''/d''" 200] next_id_empty
  by (simp add: empty_database_def)

lemma example_db_scan_files:
  "get_baseline_files example_db_scan 1 =
     dict_by_path (fst (scan_directory example_lib example_scanner example_fs ''/d''))"
  unfolding example_db_scan_eq
  using baseline_files_after_create[OF db_consistent_empty] next_id_empty by simp

lemma example_locked:
  "map_of (dict_by_path (fst (scan_directory example_lib example_scanner example_fs ''/d'')))
     ''/d/locked'' =
   Some \<lparr>path = ''/d/locked'', size_bytes = 3, modified_time = 0,
       hash_sha256 = [], hash_sha1 = [], hash_md5 = [],
       permissions = ''644'', inode = Some 7\<rparr>"
  unfolding example_scan by (simp add: dict_by_path_def)

theorem both_unhashable_unchanged_witness:
  "get_latest_baseline example_db_scan ''/d'' = Some 1 \<and>
   map_option hash_sha256 (map_of (get_baseline_files example_db_scan 1) ''/d/locked'') = Some [] \<and>
   map_option hash_sha256
     (map_of (dict_by_path (fst (scan_directory example_lib example_scanner example_fs ''/d'')))
        ''/d/locked'') = Some [] \<and>
   records_for ''/d/locked''
     (fst (check_integrity example_lib example_scanner example_fs example_db_scan ''/d'')) = [] \<and>
   fst (check_integrity example_lib example_scanner example_fs example_db_scan ''/d'') = [] \<and>
   fst (snd (check_integrity example_lib example_scanner example_fs example_db_scan ''/d'')) =
     example_db_scan"
proof -
  let ?locked = "\<lparr>path = ''/d/locked'', size_bytes = 3, modified_time = 0,
       hash_sha256 = [], hash_sha1 = [], hash_md5 = [],
       permissions = ''644'', inode = Some 7\<rparr>"
  note t = both_unhashable_unchanged[where db=example_db_scan and bpath="''/d''" and bid=1
      and p="''/d/locked''" and bf="?locked" and cf="?locked" and L=example_lib
      and sc=example_scanner and fs=example_fs]
  have b: "map_of (get_baseline_files example_db_scan 1) ''/d/locked'' = Some ?locked"
    unfolding example_db_scan_files by (rule example_locked)
  have 1: "records_for ''/d/locked''
     (fst (check_integrity example_lib example_scanner example_fs example_db_scan ''/d'')) = []"
    using t example_db_scan_latest b example_locked by simp
  have e: "fst (check_integrity example_lib example_scanner example_fs example_db_scan ''/d'') = []"
    unfolding check_integrity_changes[OF example_db_scan_latest] example_db_scan_files
    by (simp add: detect_changes_same distinct_dict_by_path)
  with t have 2: "fst (snd (check_integrity example_lib example_scanner example_fs
                              example_db_scan ''/d'')) = example_db_scan"
    by blast
  show ?thesis using example_db_scan_latest b example_locked 1 e 2 by simp
qed

text \<open>
  C4, at a failing input. Two baselines of the same path are stored within one second; they
  receive the ids 1 and 2 and the same \<^verbatim>\<open>created_at\<close>. \<^verbatim>\<open>get_latest_baseline\<close>
  then returns 1, the earlier one, not the most recently created. (The lemmas
  \<open>latest_None_iff\<close>, \<open>latest_Some\<close> and \<open>latest_after_create\<close> state what does hold:
  no result exactly when no row has the path, a result with the greatest
  \<^verbatim>\<open>created_at\<close> among the rows of the path, and the new baseline when every older
  one of the path has a strictly smaller \<^verbatim>\<open>created_at\<close>.)
\<close>

theorem latest_baseline_same_second:
  "fst (db_create_baseline empty_database 100 ''first'' ''/d''
          [example_info ''/d/a.txt'' ''h-hello'' 5]) = 1 \<and>
   fst (db_create_baseline example_db_one 100 ''second'' ''/d''
          [example_info ''/d/a.txt'' ''h-hello-there'' 11]) = 2 \<and>
   map b_created_at (baselines example_db_two) = [100, 100] \<and>
   get_latest_baseline example_db_two ''/d'' = Some 1"
  by (simp add: example_db_two_def example_db_one_def db_create_baseline_def empty_database_def
      next_baseline_id_def get_latest_baseline_def order_by_created_at_desc_def sort_key_def)

lemma except_ValueError_caught: "except_ValueError body dflt \<noteq> Inl ValueError"
  by (cases body) (auto simp: except_ValueError_def split: py_exception.splits)

lemma suffix_loop_caught: "suffix_loop rnd s ms = Some r \<Longrightarrow> r \<noteq> Inl ValueError"
  by (induction ms) (auto simp: except_ValueError_caught split: if_splits)

lemma parse_size_no_ValueError: "parse_size rnd s \<noteq> Inl ValueError"
  by (auto simp: parse_size_def Let_def except_ValueError_caught suffix_loop_caught
      split: option.splits)

text \<open>
  C7, at a failing input. For the setting \<^verbatim>\<open>infB\<close> the suffix \<^verbatim>\<open>B\<close> matches,
  \<^verbatim>\<open>float("INF")\<close> is the infinity, and \<^verbatim>\<open>int\<close> of it raises
  \<^verbatim>\<open>OverflowError\<close>, which \<^verbatim>\<open>except ValueError\<close> does not catch:
  \<^verbatim>\<open>_parse_size\<close> raises instead of returning the default, whatever the rounding.
\<close>

theorem parse_size_infinity_raises:
  "parse_size rnd ''infB'' = Inl OverflowError"
  by code_simp


lemma example_scan_before:
  "fst (scan_directory example_lib example_scanner example_fs_before ''/d'') =
     [\<lparr>path = ''/d/a.txt'', size_bytes = 5, modified_time = 0,
       hash_sha256 = ''sha256:hello'', hash_sha1 = ''sha1:hello'',
       hash_md5 = ''md5:hello'', permissions = ''644'', inode = Some 7\<rparr>]"
proof -
  have r: "example_fs_before (abspath example_lib ''/d'') =
             Some (Directory [(''a.txt'', File (regular_file (example_stat 5) ''hello''))])"
    by (simp add: example_fs_before_def example_lib_def)
  show ?thesis
    unfolding scan_files[where fs=example_fs_before and L=example_lib and d="''/d''", OF r]
    by (simp add: walked_files_def scan_walk_def example_eval)
qed

lemma example_scan_after:
  "fst (scan_directory example_lib example_scanner example_fs_after ''/d'') =
     [\<lparr>path = ''/d/a.txt'', size_bytes = 6, modified_time = 0,
       hash_sha256 = ''sha256:hello!'', hash_sha1 = ''sha1:hello!'',
       hash_md5 = ''md5:hello!'', permissions = ''644'', inode = Some 7\<rparr>]"
proof -
  have r: "example_fs_after (abspath example_lib ''/d'') =
             Some (Directory [(''a.txt'', File (regular_file (example_stat 6) ''hello!''))])"
    by (simp add: example_fs_after_def example_lib_def)
  show ?thesis
    unfolding scan_files[where fs=example_fs_after and L=example_lib and d="''/d''", OF r]
    by (simp add: walked_files_def scan_walk_def example_eval)
qed

lemma example_db_before_eq:
  "example_db_before =
     \<lparr>baselines = [\<lparr>b_id = 1, b_name = ''baseline_20240101_000000'', b_created_at = 100,
                     b_path = ''/d'', b_file_count = 1, b_total_size = 5\<rparr>],
      files = [\<lparr>f_baseline_id = 1,
                f_info = \<lparr>path = ''/d/a.txt'', size_bytes = 5, modified_time = 0,
                   hash_sha256 = ''sha256:hello'', hash_sha1 = ''sha1:hello'',
                   hash_md5 = ''md5:hello'', permissions = ''644'', inode = Some 7\<rparr>\<rparr>],
      change_history = []\<rparr>"
proof -
  have "fst (scan_directory example_lib example_scanner example_fs_before ''/d'') \<noteq> []"
    unfolding example_scan_before by simp
  from create_baseline_db[OF this] show ?thesis
    unfolding example_db_before_def example_scan_before
    by (simp add: example_clock_def db_create_baseline_def next_baseline_id_def empty_database_def)
qed

lemma example_create_after:
  "create_baseline example_lib example_scanner example_fs_after (example_clock 100)
     example_db_before ''/d'' None =
   (Some 2,
    \<lparr>baselines = [\<lparr>b_id = 1, b_name = ''baseline_20240101_000000'', b_created_at = 100,
                     b_path = ''/d'', b_file_count = 1, b_total_size = 5\<rparr>,
                  \<lparr>b_id = 2, b_name = ''baseline_20240101_000000'', b_created_at = 100,
                     b_path = ''/d'', b_file_count = 1, b_total_size = 6\<rparr>],
      files = [\<lparr>f_baseline_id = 1,
                f_info = \<lparr>path = ''/d/a.txt'', size_bytes = 5, modified_time = 0,
                   hash_sha256 = ''sha256:hello'', hash_sha1 = ''sha1:hello'',
                   hash_md5 = ''md5:hello'', permissions = ''644'', inode = Some 7\<rparr>\<rparr>,
               \<lparr>f_baseline_id = 2,
                f_info = \<lparr>path = ''/d/a.txt'', size_bytes = 6, modified_time = 0,
                   hash_sha256 = ''sha256:hello!'', hash_sha1 = ''sha1:hello!'',
                   hash_md5 = ''md5:hello!'', permissions = ''644'', inode = Some 7\<rparr>\<rparr>],
      change_history = []\<rparr>,
    [(INFO, CreatingBaseline ''baseline_20240101_000000'' ''/d'')] @
    snd (scan_directory example_lib example_scanner example_fs_after ''/d'') @
    [(INFO, BaselineCreated 2 1)])"
proof -
  have "fst (scan_directory example_lib example_scanner example_fs_after ''/d'') \<noteq> []"
    unfolding example_scan_after by simp
  from create_baseline_db[OF this] show ?thesis
    unfolding example_scan_after example_db_before_eq
    by (simp add: example_clock_def db_create_baseline_def next_baseline_id_def)
qed

text \<open>
  C9, at a failing input. A baseline of \<^verbatim>\<open>/d\<close> is taken, the file
  \<^verbatim>\<open>a.txt\<close> is rewritten, and a second baseline is taken within the same second; it
  succeeds with id 2. The check that follows at once, on the unchanged directory, compares
  against baseline 1, which \<^verbatim>\<open>get_latest_baseline\<close> selects, and reports the file
  as MODIFIED. (The lemma \<open>check_after_baseline\<close> states what does hold: the check is empty
  and writes nothing whenever the baseline just created is the one selected.)
\<close>

theorem check_after_baseline_same_second:
  "fst (create_baseline example_lib example_scanner example_fs_after (example_clock 100)
          example_db_before ''/d'' None) = Some 2 \<and>
   get_latest_baseline example_db_after ''/d'' = Some 1 \<and>
   fst (check_integrity example_lib example_scanner example_fs_after example_db_after ''/d'') =
     [\<lparr>change_type = MODIFIED, file_path = ''/d/a.txt'',
       old_hash = Some ''sha256:hello'', new_hash = Some ''sha256:hello!'',
       old_size = Some 5, new_size = Some 6\<rparr>]"
proof -
  have latest: "get_latest_baseline example_db_after ''/d'' = Some 1"
    unfolding example_db_after_def example_create_after
    by (simp add: get_latest_baseline_def order_by_created_at_desc_def sort_key_def)
  have "fst (check_integrity example_lib example_scanner example_fs_after example_db_after ''/d'') =
     [\<lparr>change_type = MODIFIED, file_path = ''/d/a.txt'',
       old_hash = Some ''sha256:hello'', new_hash = Some ''sha256:hello!'',
       old_size = Some 5, new_size = Some 6\<rparr>]"
    unfolding check_integrity_changes[OF latest] example_scan_after
    unfolding example_db_after_def example_create_after
    by (simp add: get_baseline_files_def dict_by_path_def detect_changes_def
        check_baseline_entry_def check_current_entry_def)
  then show ?thesis using latest by (simp add: example_create_after)
qed

end
